theory Spec2Isabelle
  imports Main "HOL-Library.Word"
begin

section \<open>Data model of the restart manager (src/sm/restart.cpp)\<close>

text \<open>
  Modelled from the spec: the declaration of \<open>lsn_t\<close> is not part of the sources at hand.
  The spec describes it as a totally ordered 64-bit identifier with a constant NULL; the
  code compares LSNs with \<open><\<close>, \<open>>\<close>, \<open>>=\<close> on their 64-bit data and advances them
  by adding to that data, so an LSN is a 64-bit word and \<open>lsn_t::null\<close> is zero.
\<close>

type_synonym lsn_t = "64 word"

definition lsn_null :: lsn_t where
  "lsn_null = 0"

text \<open>\<open>lsn_t::advance(n)\<close>: add to the 64-bit data (wraps as the machine integer does).\<close>

definition lsn_advance :: "lsn_t \<Rightarrow> lsn_t \<Rightarrow> lsn_t" where
  "lsn_advance l n = l + n"

text \<open>Transaction ids; \<open>tid_t::null\<close> is 0.\<close>

type_synonym tid_t = nat

definition tid_null :: tid_t where
  "tid_null = 0"

text \<open>\<open>lpid_t\<close>: volume, store and page number (\<open>shpid_t\<close>); page number 0 is no page.\<close>

record lpid_t =
  pid_vol :: nat
  pid_store :: nat
  pid_page :: nat

type_synonym bf_key_t = "nat \<times> nat"

definition bf_key :: "nat \<Rightarrow> nat \<Rightarrow> bf_key_t" where
  "bf_key v p = (v, p)"

text \<open>The log record types that \<open>restart.cpp\<close> names; \<open>t_other\<close> stands for every other type.\<close>

datatype kind_t =
    t_chkpt_begin | t_chkpt_bf_tab | t_chkpt_xct_tab | t_chkpt_dev_tab | t_chkpt_end
  | t_dismount_vol | t_mount_vol
  | t_xct_freeing_space | t_xct_end_group | t_xct_abort | t_xct_end
  | t_compensate | t_alloc_a_page | t_alloc_consecutive_pages | t_dealloc_a_page
  | t_store_operation | t_page_set_to_be_deleted | t_page_img_format
  | t_btree_norec_alloc | t_btree_insert | t_btree_insert_nonghost | t_btree_update
  | t_btree_overwrite | t_btree_ghost_mark | t_btree_ghost_reclaim | t_btree_ghost_reserve
  | t_btree_foster_adopt | t_btree_foster_merge | t_btree_foster_rebalance
  | t_btree_foster_rebalance_norec | t_btree_foster_deadopt
  | t_comment | t_skip | t_max_logrec | t_other

datatype xct_state_t = xct_active | xct_freeing_space | xct_aborting | xct_ended

text \<open>One entry of a checkpoint's transaction table (\<open>chkpt_xct_tab_t::xrec\<close>).\<close>

record xrec_t =
  xrec_tid :: tid_t
  xrec_state :: xct_state_t
  xrec_last_lsn :: lsn_t
  xrec_undo_nxt :: lsn_t
  xrec_first_lsn :: lsn_t

text \<open>
  What \<open>r.data()\<close> holds. The code casts the bytes to the structure its \<open>case\<close> expects;
  here each shape is a constructor, and a reader that meets another shape sees an empty
  table (count 0) or null LSNs.
\<close>

datatype payload =
    NoData
  | ChkptBegin lsn_t
  | ChkptBfTab "(lpid_t \<times> lsn_t) list"
  | ChkptXctTab tid_t "xrec_t list"
  | ChkptDevTab "(nat \<times> nat) list"
  | ChkptEnd lsn_t lsn_t lsn_t
  | XctList "tid_t list"

record logrec_t =
  rtype :: kind_t
  tid :: tid_t
  pid :: lpid_t
  pid2 :: lpid_t
  xid_prev :: lsn_t
  lsn_ck :: lsn_t
  hdr_ok :: bool
  is_redo :: bool
  is_undo :: bool
  is_cpsn :: bool
  is_single_sys_xct :: bool
  is_multi_page :: bool
  data :: payload

definition shpid :: "logrec_t \<Rightarrow> nat" where
  "shpid r = pid_page (pid r)"

definition null_pid :: "logrec_t \<Rightarrow> bool" where
  "null_pid r = (shpid r = 0)"

definition is_skip :: "logrec_t \<Rightarrow> bool" where
  "is_skip r = (rtype r = t_skip)"

text \<open>
  Page allocation and deallocation records, as the comments of \<open>analysis_pass\<close> list them:
  allocation is \<open>t_alloc_a_page, t_alloc_consecutive_pages\<close>, deallocation is
  \<open>t_dealloc_a_page, t_page_set_to_be_deleted\<close>.
\<close>

definition is_page_allocate :: "logrec_t \<Rightarrow> bool" where
  "is_page_allocate r = (rtype r = t_alloc_a_page \<or> rtype r = t_alloc_consecutive_pages)"

definition is_page_deallocate :: "logrec_t \<Rightarrow> bool" where
  "is_page_deallocate r = (rtype r = t_dealloc_a_page \<or> rtype r = t_page_set_to_be_deleted)"

text \<open>\<open>is_page_update\<close>: "redoable, has a pid, and is not compensated" (comment in the source).\<close>

definition is_page_update :: "logrec_t \<Rightarrow> bool" where
  "is_page_update r = (is_redo r \<and> \<not> is_cpsn r \<and> \<not> null_pid r)"

text \<open>
  Modelled from the spec: \<open>logrec_t::valid_header\<close> is not part of the sources at hand. The
  spec has each fetched record validated by \<open>record.lsn_ck == requested_lsn\<close>, its length
  within bounds and its kind recognised; the last two are the flag \<open>hdr_ok\<close>.
\<close>

definition valid_header :: "logrec_t \<Rightarrow> lsn_t \<Rightarrow> bool" where
  "valid_header r l = (hdr_ok r \<and> lsn_ck r = l)"

text \<open>
  A buffer-pool slot: the control block (\<open>bf_tree_cb_t\<close>) together with the page image it
  controls. \<open>page_redone\<close> lists the LSNs of the log records whose redo function has been
  applied to the image since it was brought in; \<open>latch_busy\<close> says that another thread holds
  the latch, so that an acquire with \<open>WAIT_IMMEDIATE\<close> fails.
\<close>

record bf_cb =
  cb_in_doubt :: bool
  cb_dirty :: bool
  cb_used :: bool
  cb_rec_lsn :: lsn_t
  cb_pid_vol :: nat
  cb_store_num :: nat
  cb_pid_shpid :: nat
  latch_busy :: bool
  page_lsn :: lsn_t
  page_pid :: lpid_t
  page_redone :: "lsn_t list"

text \<open>What reading a page from disk gives (\<open>load_for_redo\<close>): the image with its LSN, past
  the end of the file, a bad checksum (the image is there, its LSN cannot be trusted), or
  another error.\<close>

datatype load_rc = LoadOk lsn_t | LoadPastEnd | LoadBadChecksum lsn_t | LoadError

record xct_t =
  xct_tid :: tid_t
  xct_state :: xct_state_t
  xct_last_lsn :: lsn_t
  xct_first_lsn :: lsn_t
  xct_undo_nxt :: lsn_t
  xct_is_sys :: bool
  xct_is_single_log_sys :: bool
  xct_is_doomed :: bool

datatype operating_mode_t =
  t_not_started | t_in_analysis | t_in_redo | t_in_undo | t_forward_processing

text \<open>Calls into the collaborators, in the order they are made.\<close>

datatype event =
    EvMount nat nat
  | EvDismount nat
  | EvRedoNoPage lsn_t
  | EvSetLastMountLSN lsn_t
  | EvSPR bf_key_t lsn_t
  | EvUnlockDuration tid_t
  | EvSynchTake
  | EvForceAll
  | EvFlushAll
  | EvLogComment
  | EvRollback tid_t lsn_t
  | EvUndo tid_t lsn_t
  | EvAbort tid_t
  | EvSetMode operating_mode_t
  | EvSetSwizzling bool

text \<open>
  Fatal outcomes: \<open>W_FATAL_MSG\<close> / \<open>W_COERCE\<close> / \<open>abort()\<close> (\<open>Fatal\<close>), a failed
  \<open>w_assert0\<close> (\<open>AssertFailed\<close>), and a method call through a null \<open>xct_t*\<close>
  (\<open>NullXct\<close>). The debug-only assertions \<open>w_assert1\<close> and \<open>w_assert9\<close> are not modelled.
\<close>

datatype error = Fatal | AssertFailed | NullXct

text \<open>The recovery policy (the \<open>use_..._recovery()\<close> predicates).\<close>

record config =
  use_serial_recovery :: bool
  use_redo_log_recovery :: bool
  use_undo_reverse_recovery :: bool
  use_concurrent_lock_recovery :: bool

text \<open>
  The state the restart manager works on: operating mode, the buffer pool (hash table from
  page key to slot, and the number of free blocks), the disk, the transaction table (new
  transactions go to the head), the tid counter, the log (records in LSN order, and the
  current end-of-log LSN), the global \<open>commit_lsn\<close>, and the calls made so far.
\<close>

record world =
  operating_mode :: operating_mode_t
  swizzling_enabled :: bool
  bf :: "bf_key_t \<Rightarrow> bf_cb option"
  bf_free :: nat
  disk :: "bf_key_t \<Rightarrow> load_rc"
  xct_tab :: "xct_t list"
  nxt_tid :: tid_t
  the_log :: "(lsn_t \<times> logrec_t) list"
  curr_lsn :: lsn_t
  g_commit_lsn :: lsn_t
  trace :: "event list"

definition emit :: "event \<Rightarrow> world \<Rightarrow> world" where
  "emit e w = w\<lparr>trace := trace w @ [e]\<rparr>"

section \<open>Log-driven Redo: \<open>restart_m::_redo_log_with_pid\<close>\<close>

definition virgin_page_of :: "logrec_t \<Rightarrow> lpid_t \<Rightarrow> bool" where
  "virgin_page_of r page_updated =
     (rtype r = t_page_img_format
      \<or> (rtype r = t_btree_norec_alloc \<and> pid_page page_updated \<noteq> shpid r))"

definition set_cb_pid :: "lpid_t \<Rightarrow> bf_cb \<Rightarrow> bf_cb" where
  "set_cb_pid page_updated cb =
     cb\<lparr>cb_pid_vol := pid_vol page_updated, cb_store_num := pid_store page_updated,
        cb_pid_shpid := pid_page page_updated\<rparr>"

text \<open>
  Bringing the page in: an in-doubt page that the record does not create is read from disk
  (past the end of the file is fatal, a bad checksum marks the page corrupted, any other
  error is fatal); an in-doubt page that the record creates is not read; a dirty page is in
  memory already. The result is the slot and the flag \<open>corrupted_page\<close>.
\<close>

definition redo_load :: "load_rc \<Rightarrow> lpid_t \<Rightarrow> bool \<Rightarrow> bf_cb \<Rightarrow> error + (bf_cb \<times> bool)" where
  "redo_load on_disk page_updated virgin_page cb =
     (if cb_in_doubt cb \<and> \<not> virgin_page then
        (case on_disk of
           LoadPastEnd \<Rightarrow> Inl Fatal
         | LoadError \<Rightarrow> Inl Fatal
         | LoadBadChecksum l \<Rightarrow>
             Inr (set_cb_pid page_updated (cb\<lparr>page_lsn := l, page_redone := []\<rparr>), True)
         | LoadOk l \<Rightarrow>
             Inr (set_cb_pid page_updated (cb\<lparr>page_lsn := l, page_redone := []\<rparr>), False))
      else if cb_in_doubt cb \<and> virgin_page then
        Inr (set_cb_pid page_updated cb, False)
      else Inr (cb, False))"

text \<open>
  Modelled from the spec: single-page repair (\<open>log->recover_single_page\<close>) is an external
  primitive that reconstructs the page up to the expected last-write LSN it is given; the
  repaired image carries that LSN.
\<close>

definition recover_single_page :: "lsn_t \<Rightarrow> bf_cb \<Rightarrow> bf_cb" where
  "recover_single_page emlsn cb = cb\<lparr>page_lsn := emlsn\<rparr>"

text \<open>
  The slot as it is when the code reads \<open>page_lsn = page.lsn()\<close>: loaded, the page id set,
  the LSN of a page the record creates reset to null, a corrupted page repaired. The second
  component is the flag \<open>corrupted_page\<close>.
\<close>

definition redo_prepare ::
  "load_rc \<Rightarrow> logrec_t \<Rightarrow> lsn_t \<Rightarrow> lpid_t \<Rightarrow> bf_cb \<Rightarrow> error + (bf_cb \<times> bool)" where
  "redo_prepare on_disk r lsn page_updated cb =
     (let virgin_page = virgin_page_of r page_updated in
      case redo_load on_disk page_updated virgin_page cb of
        Inl e \<Rightarrow> Inl e
      | Inr (cb1, corrupted_page) \<Rightarrow>
          (let cb2 = cb1\<lparr>page_pid := page_updated\<rparr>;
               cb3 = (if virgin_page then cb2\<lparr>page_lsn := lsn_null\<rparr> else cb2);
               cb4 = (if corrupted_page then recover_single_page lsn cb3 else cb3)
           in Inr (cb4, corrupted_page)))"

text \<open>
  The comparison of the page's last-write LSN with the record's LSN, and what follows from
  it. The result is the slot and the flag \<open>redone\<close>.
\<close>

definition redo_compare ::
  "logrec_t \<Rightarrow> lsn_t \<Rightarrow> lsn_t \<Rightarrow> bool \<Rightarrow> bf_cb \<Rightarrow> error + (bf_cb \<times> bool)" where
  "redo_compare r lsn end_logscan_lsn virgin_page cb =
     (let page_lsn0 = page_lsn cb in
      if page_lsn0 < lsn then
        (let cb1 = cb\<lparr>page_redone := page_redone cb @ [lsn], page_lsn := lsn\<rparr>;
             cb2 = (if (cb_in_doubt cb1 \<or> virgin_page) \<and> cb_rec_lsn cb1 > lsn
                    then cb1\<lparr>cb_rec_lsn := lsn\<rparr> else cb1)
         in Inr (cb2, True))
      else if virgin_page then
        Inr (cb\<lparr>cb_rec_lsn := lsn\<rparr>, True)
      else if page_lsn0 \<ge> end_logscan_lsn \<and> lsn_null \<noteq> page_lsn0 then
        Inl Fatal
      else
        (if lsn_null \<noteq> page_lsn0
         then Inr (cb\<lparr>page_lsn := lsn_advance page_lsn0 1\<rparr>, False)
         else Inr (cb, False)))"

definition in_doubt_to_dirty :: "bf_cb \<Rightarrow> bf_cb" where
  "in_doubt_to_dirty cb = cb\<lparr>cb_in_doubt := False, cb_dirty := True, cb_used := True\<rparr>"

text \<open>
  \<open>_redo_log_with_pid\<close>. The result is the new state, the flag \<open>redone\<close> and the counter
  \<open>dirty_count\<close> (a \<open>uint32_t\<close>).
\<close>

definition redo_log_with_pid ::
  "logrec_t \<Rightarrow> lsn_t \<Rightarrow> lsn_t \<Rightarrow> lpid_t \<Rightarrow> 32 word \<Rightarrow> world \<Rightarrow> error + (world \<times> bool \<times> 32 word)" where
  "redo_log_with_pid r lsn end_logscan_lsn page_updated dirty_count w =
     (let key = bf_key (pid_vol page_updated) (pid_page page_updated) in
      case bf w key of
        None \<Rightarrow>
          (if \<not> is_page_deallocate r then Inl Fatal else Inr (w, False, dirty_count))
      | Some cb \<Rightarrow>
          (if latch_busy cb then Inl Fatal
           else if cb_in_doubt cb \<or> cb_dirty cb then
             (case redo_prepare (disk w key) r lsn page_updated cb of
                Inl e \<Rightarrow> Inl e
              | Inr (cb1, corrupted_page) \<Rightarrow>
                  (let w1 = (if corrupted_page then emit (EvSPR key lsn) w else w) in
                   case redo_compare r lsn end_logscan_lsn (virgin_page_of r page_updated) cb1 of
                     Inl e \<Rightarrow> Inl e
                   | Inr (cb2, redone) \<Rightarrow>
                       (if redone \<and> cb_in_doubt cb2
                        then Inr (w1\<lparr>bf := (bf w1)(key \<mapsto> in_doubt_to_dirty cb2)\<rparr>,
                                  redone, dirty_count + 1)
                        else Inr (w1\<lparr>bf := (bf w1)(key \<mapsto> cb2)\<rparr>, redone, dirty_count))))
           else if is_page_allocate r then Inr (w, False, dirty_count)
           else if is_page_deallocate r then Inl Fatal
           else if cb_used cb then Inl Fatal
           else Inr (w, False, dirty_count)))"

section \<open>Transaction table and log cursor\<close>

text \<open>
  Modelled from the spec: the transaction table (\<open>xct_t::new_xct\<close>, \<open>look_up\<close>,
  \<open>destroy_xct\<close>, \<open>update_youngest_tid\<close> and the setters) is not part of the sources at
  hand. A new transaction goes to the head of the table (as the comments of the Undo passes
  say); \<open>look_up\<close> finds the first entry with the tid; every setter changes that entry.
\<close>

definition new_xct ::
  "tid_t \<Rightarrow> xct_state_t \<Rightarrow> lsn_t \<Rightarrow> lsn_t \<Rightarrow> bool \<Rightarrow> bool \<Rightarrow> bool \<Rightarrow> world \<Rightarrow> world" where
  "new_xct t st last_l undo sys single doomed w =
     w\<lparr>xct_tab := \<lparr>xct_tid = t, xct_state = st, xct_last_lsn = last_l, xct_first_lsn = lsn_null,
                    xct_undo_nxt = undo, xct_is_sys = sys, xct_is_single_log_sys = single,
                    xct_is_doomed = doomed\<rparr> # xct_tab w\<rparr>"

definition look_up :: "tid_t \<Rightarrow> world \<Rightarrow> xct_t option" where
  "look_up t w = find (\<lambda>x. xct_tid x = t) (xct_tab w)"

fun upd_first :: "tid_t \<Rightarrow> (xct_t \<Rightarrow> xct_t) \<Rightarrow> xct_t list \<Rightarrow> xct_t list" where
  "upd_first t f [] = []"
| "upd_first t f (x # xs) = (if xct_tid x = t then f x # xs else x # upd_first t f xs)"

definition upd_xct :: "tid_t \<Rightarrow> (xct_t \<Rightarrow> xct_t) \<Rightarrow> world \<Rightarrow> world" where
  "upd_xct t f w = w\<lparr>xct_tab := upd_first t f (xct_tab w)\<rparr>"

fun del_first :: "tid_t \<Rightarrow> xct_t list \<Rightarrow> xct_t list" where
  "del_first t [] = []"
| "del_first t (x # xs) = (if xct_tid x = t then xs else x # del_first t xs)"

definition destroy_xct :: "tid_t \<Rightarrow> world \<Rightarrow> world" where
  "destroy_xct t w = w\<lparr>xct_tab := del_first t (xct_tab w)\<rparr>"

definition update_youngest_tid :: "tid_t \<Rightarrow> world \<Rightarrow> world" where
  "update_youngest_tid t w = (if nxt_tid w < t then w\<lparr>nxt_tid := t\<rparr> else w)"

definition num_active_xcts :: "world \<Rightarrow> nat" where
  "num_active_xcts w = length (xct_tab w)"

text \<open>
  Modelled from the spec: the log cursor (\<open>log_i::xct_next\<close>) and \<open>log->fetch\<close> are not
  part of the sources at hand. A forward cursor opened at an LSN yields the records from
  that LSN on, in LSN order; a fetch returns the record stored at the LSN, or fails.
\<close>

definition log_scan :: "lsn_t \<Rightarrow> world \<Rightarrow> (lsn_t \<times> logrec_t) list" where
  "log_scan start w = dropWhile (\<lambda>(l, r). l < start) (the_log w)"

definition log_fetch :: "lsn_t \<Rightarrow> world \<Rightarrow> logrec_t option" where
  "log_fetch l w = map_of (the_log w) l"

section \<open>Log-driven Redo: \<open>restart_m::redo_log_pass\<close>\<close>

text \<open>A redoable record without a page id.\<close>

definition redo_no_page :: "lsn_t \<Rightarrow> logrec_t \<Rightarrow> world \<Rightarrow> error + world" where
  "redo_no_page lsn r w =
     (if \<not> is_single_sys_xct r \<and> tid r \<noteq> tid_null then
        (case look_up (tid r) w of
           Some xd \<Rightarrow>
             (if xct_state xd = xct_active then Inr (emit (EvRedoNoPage lsn) w) else Inl Fatal)
         | None \<Rightarrow> Inr w)
      else if \<not> is_single_sys_xct r then
        Inr (emit (EvSetLastMountLSN lsn) (emit (EvRedoNoPage lsn) w))
      else if \<not> is_page_allocate r \<and> \<not> is_page_deallocate r then
        Inr (emit (EvSetLastMountLSN lsn) (emit (EvRedoNoPage lsn) w))
      else Inr w)"

text \<open>The body of the scan loop for one record (after the test that ends the scan).\<close>

definition redo_record ::
  "lsn_t \<Rightarrow> lsn_t \<Rightarrow> logrec_t \<Rightarrow> 32 word \<Rightarrow> world \<Rightarrow> error + (world \<times> 32 word)" where
  "redo_record end_logscan_lsn lsn r dirty_count w =
     (if \<not> valid_header r lsn then Inl Fatal
      else if is_redo r then
        (if null_pid r then
           (case redo_no_page lsn r w of Inl e \<Rightarrow> Inl e | Inr w1 \<Rightarrow> Inr (w1, dirty_count))
         else
           (case redo_log_with_pid r lsn end_logscan_lsn (pid r) dirty_count w of
              Inl e \<Rightarrow> Inl e
            | Inr (w1, redone, dc1) \<Rightarrow>
                (if is_multi_page r then
                   (case redo_log_with_pid r lsn end_logscan_lsn (pid2 r) dc1 w1 of
                      Inl e \<Rightarrow> Inl e
                    | Inr (w2, redone2, dc2) \<Rightarrow> Inr (w2, dc2))
                 else Inr (w1, dc1))))
      else Inr (w, dirty_count))"

fun redo_scan ::
  "config \<Rightarrow> lsn_t \<Rightarrow> (lsn_t \<times> logrec_t) list \<Rightarrow> 32 word \<Rightarrow> world \<Rightarrow> error + (world \<times> 32 word)" where
  "redo_scan cfg end_logscan_lsn [] dirty_count w = Inr (w, dirty_count)"
| "redo_scan cfg end_logscan_lsn ((lsn, r) # rest) dirty_count w =
     (if \<not> use_serial_recovery cfg \<and> lsn > end_logscan_lsn then Inr (w, dirty_count)
      else
        (case redo_record end_logscan_lsn lsn r dirty_count w of
           Inl e \<Rightarrow> Inl e
         | Inr (w1, dc1) \<Rightarrow> redo_scan cfg end_logscan_lsn rest dc1 w1))"

definition redo_log_pass :: "config \<Rightarrow> lsn_t \<Rightarrow> lsn_t \<Rightarrow> 32 word \<Rightarrow> world \<Rightarrow> error + world" where
  "redo_log_pass cfg redo_lsn end_logscan_lsn in_doubt_count w =
     (if in_doubt_count = 0 then Inr w
      else if \<not> use_redo_log_recovery cfg then Inl Fatal
      else
        (case redo_scan cfg end_logscan_lsn (log_scan redo_lsn w) 0 w of
           Inl e \<Rightarrow> Inl e
         | Inr (w1, dirty_count) \<Rightarrow>
             (if in_doubt_count \<noteq> dirty_count then Inl Fatal else Inr w1)))"

section \<open>Redo with the system open: \<open>restart_m::redo_concurrent\<close>\<close>

text \<open>
  \<open>redo_lsn\<close> and \<open>in_doubt_count\<close> are the globals of \<open>smlevel_0\<close> that Analysis has set. The
  end of the scan is \<open>log->curr_lsn()\<close>, read when the pass starts: the position of the next
  insert into the log (\<open>_to_insert_lsn\<close>, "the next available lsn for any new insertion").
  The log of the state is the log as the forward cursor reads it; with the system open it
  holds what user transactions insert while the pass runs. The passes of the other Redo
  policies (page-driven; SPR-driven and mixed, which are not implemented) and the fatal
  error when no policy is set are the parameter \<open>redo_other\<close>. The checkpoint after Redo is
  taken whether or not there was work.
\<close>

definition redo_concurrent ::
  "config \<Rightarrow> (world \<Rightarrow> error + world) \<Rightarrow> lsn_t \<Rightarrow> 32 word \<Rightarrow> world \<Rightarrow> error + world" where
  "redo_concurrent cfg redo_other redo_lsn in_doubt_count w =
     (if use_serial_recovery cfg then Inl Fatal
      else
        (case (if use_redo_log_recovery cfg then
                 (if 0 \<noteq> in_doubt_count
                  then redo_log_pass cfg redo_lsn (curr_lsn w) in_doubt_count w
                  else Inr w)
               else redo_other w) of
           Inl e \<Rightarrow> Inl e
         | Inr w1 \<Rightarrow> Inr (emit EvSynchTake w1)))"

section \<open>Buffer pool operations used by Analysis\<close>

text \<open>
  Modelled from the spec: the buffer pool (\<open>bf_tree_m\<close>) is not part of the sources at hand.
  \<open>register_and_mark(page_id, lsn, in_out in_doubt_count)\<close> registers the page as in-doubt
  with the given \<open>rec_lsn\<close>, is idempotent and lowers \<open>rec_lsn\<close> if the page is already
  in-doubt; it fails when a new slot is needed and no block is free.
  \<open>clear_in_doubt(idx, keep_used)\<close> clears the flag, and releases the slot unless the page
  stays used.
\<close>

definition fresh_cb :: "lpid_t \<Rightarrow> lsn_t \<Rightarrow> bf_cb" where
  "fresh_cb p l =
     \<lparr>cb_in_doubt = True, cb_dirty = False, cb_used = True, cb_rec_lsn = l,
      cb_pid_vol = pid_vol p, cb_store_num = pid_store p, cb_pid_shpid = pid_page p,
      latch_busy = False, page_lsn = lsn_null, page_pid = p, page_redone = []\<rparr>"

definition register_and_mark ::
  "lpid_t \<Rightarrow> lsn_t \<Rightarrow> 32 word \<Rightarrow> world \<Rightarrow> (world \<times> 32 word) option" where
  "register_and_mark p l in_doubt_count w =
     (let key = bf_key (pid_vol p) (pid_page p) in
      case bf w key of
        Some cb \<Rightarrow>
          (if cb_in_doubt cb
           then Some (w\<lparr>bf := (bf w)(key \<mapsto> cb\<lparr>cb_rec_lsn := min (cb_rec_lsn cb) l\<rparr>)\<rparr>,
                      in_doubt_count)
           else Some (w\<lparr>bf := (bf w)(key \<mapsto> cb\<lparr>cb_in_doubt := True, cb_used := True,
                                                  cb_rec_lsn := l\<rparr>)\<rparr>,
                      in_doubt_count + 1))
      | None \<Rightarrow>
          (if bf_free w = 0 then None
           else Some (w\<lparr>bf := (bf w)(key \<mapsto> fresh_cb p l), bf_free := bf_free w - 1\<rparr>,
                      in_doubt_count + 1)))"

definition clear_in_doubt :: "bf_key_t \<Rightarrow> bool \<Rightarrow> world \<Rightarrow> world" where
  "clear_in_doubt key still_used w =
     (case bf w key of
        None \<Rightarrow> w
      | Some cb \<Rightarrow>
          (if still_used then w\<lparr>bf := (bf w)(key \<mapsto> cb\<lparr>cb_in_doubt := False\<rparr>)\<rparr>
           else w\<lparr>bf := (bf w)(key := None), bf_free := bf_free w + 1\<rparr>))"

section \<open>Log Analysis: \<open>restart_m::analysis_pass\<close>\<close>

text \<open>The local variables of \<open>analysis_pass\<close> that the scan loop updates, with the state.\<close>

record astate =
  a_world :: world
  a_redo_lsn :: lsn_t
  a_undo_lsn :: lsn_t
  a_last_lsn :: lsn_t
  a_in_doubt_count :: "32 word"
  a_begin_chkpt :: lsn_t
  a_mount :: bool
  a_num_chkpt_end_handled :: nat

text \<open>A page allocation or deallocation record: the page, if it is in-doubt, stops being so.\<close>

definition analysis_clear_page :: "logrec_t \<Rightarrow> astate \<Rightarrow> astate" where
  "analysis_clear_page r st =
     (let key = bf_key (pid_vol (pid r)) (pid_page (pid r)) in
      case bf (a_world st) key of
        None \<Rightarrow> st
      | Some cb \<Rightarrow>
          (if cb_in_doubt cb
           then st\<lparr>a_world := clear_in_doubt key (is_page_allocate r) (a_world st),
                   a_in_doubt_count := a_in_doubt_count st - 1\<rparr>
           else st))"

text \<open>Registering a page as in-doubt: page number 0 is fatal, and so is a full buffer pool.\<close>

definition analysis_mark_page :: "lpid_t \<Rightarrow> lsn_t \<Rightarrow> astate \<Rightarrow> error + astate" where
  "analysis_mark_page p l st =
     (if pid_page p = 0 then Inl Fatal
      else
        (case register_and_mark p l (a_in_doubt_count st) (a_world st) of
           None \<Rightarrow> Inl Fatal
         | Some (w1, c1) \<Rightarrow> Inr (st\<lparr>a_world := w1, a_in_doubt_count := c1\<rparr>)))"

text \<open>
  A single-log system transaction: a completed transaction is put into the table under a
  fresh tid, the page (and the second page of a multi-page record) is registered, and the
  transaction is ended.
\<close>

definition analysis_ssx :: "lsn_t \<Rightarrow> logrec_t \<Rightarrow> astate \<Rightarrow> error + astate" where
  "analysis_ssx lsn r st =
     (let t = nxt_tid (a_world st) + 1;
          st1 = st\<lparr>a_world := new_xct t xct_active lsn lsn_null True True True
                                ((a_world st)\<lparr>nxt_tid := t\<rparr>)\<rparr>
      in if \<not> is_redo r then Inl AssertFailed
         else
           (case (if is_page_allocate r \<or> is_page_deallocate r
                  then Inr (analysis_clear_page r st1)
                  else if \<not> is_skip r then
                    (if \<not> null_pid r then
                       (case analysis_mark_page (pid r) lsn st1 of
                          Inl e \<Rightarrow> Inl e
                        | Inr st2 \<Rightarrow>
                            (if is_multi_page r then analysis_mark_page (pid2 r) lsn st2
                             else Inr st2))
                     else Inl Fatal)
                  else Inr st1) of
              Inl e \<Rightarrow> Inl e
            | Inr st3 \<Rightarrow>
                Inr (st3\<lparr>a_world :=
                       upd_xct t (\<lambda>x. x\<lparr>xct_state := xct_ended\<rparr>) (a_world st3)\<rparr>)))"

text \<open>
  Before the dispatch on the record type: a record with a tid that is not in the table
  (comments, skips and the end marker apart) inserts the transaction as active, with
  \<open>first_lsn\<close> at the sentinel \<open>max_lsn\<close>; a record whose transaction is in the table
  updates its \<open>last_lsn\<close>. The second component is the pointer \<open>xd\<close> (none when null).
\<close>

definition analysis_attach ::
  "lsn_t \<Rightarrow> lsn_t \<Rightarrow> logrec_t \<Rightarrow> world \<Rightarrow> world \<times> tid_t option" where
  "analysis_attach lsn max_lsn r w =
     (if tid r \<noteq> tid_null then
        (case look_up (tid r) w of
           Some x \<Rightarrow> (upd_xct (tid r) (\<lambda>x. x\<lparr>xct_last_lsn := lsn\<rparr>) w, Some (tid r))
         | None \<Rightarrow>
             (if rtype r \<noteq> t_comment \<and> rtype r \<noteq> t_skip \<and> rtype r \<noteq> t_max_logrec
              then (upd_xct (tid r) (\<lambda>x. x\<lparr>xct_last_lsn := lsn, xct_first_lsn := max_lsn\<rparr>)
                      (update_youngest_tid (tid r)
                         (new_xct (tid r) xct_active lsn (xid_prev r) False False True w)),
                    Some (tid r))
              else (w, None)))
      else (w, None))"

text \<open>\<open>t_chkpt_bf_tab\<close>: every entry registers its page with the entry's \<open>rec_lsn\<close>.\<close>

fun chkpt_bf_entries :: "(lpid_t \<times> lsn_t) list \<Rightarrow> astate \<Rightarrow> error + astate" where
  "chkpt_bf_entries [] st = Inr st"
| "chkpt_bf_entries ((p, l) # es) st =
     (case analysis_mark_page p l st of
        Inl e \<Rightarrow> Inl e
      | Inr st1 \<Rightarrow> chkpt_bf_entries es st1)"

text \<open>\<open>t_chkpt_xct_tab\<close>: every entry that is not in the table and has not ended is inserted
  as active, with the entry's \<open>last_lsn\<close>, \<open>undo_nxt\<close> and \<open>first_lsn\<close>.\<close>

fun chkpt_xct_entries :: "xrec_t list \<Rightarrow> world \<Rightarrow> world" where
  "chkpt_xct_entries [] w = w"
| "chkpt_xct_entries (e # es) w =
     chkpt_xct_entries es
       (case look_up (xrec_tid e) w of
          None \<Rightarrow>
            (if xrec_state e \<noteq> xct_ended
             then upd_xct (xrec_tid e) (\<lambda>x. x\<lparr>xct_first_lsn := xrec_first_lsn e\<rparr>)
                    (new_xct (xrec_tid e) xct_active (xrec_last_lsn e) (xrec_undo_nxt e)
                       False False True w)
             else w)
        | Some x \<Rightarrow> w)"

fun chkpt_dev_entries :: "(nat \<times> nat) list \<Rightarrow> world \<Rightarrow> world" where
  "chkpt_dev_entries [] w = w"
| "chkpt_dev_entries ((dev, vid) # es) w = chkpt_dev_entries es (emit (EvMount dev vid) w)"

definition bf_tab_of :: "payload \<Rightarrow> (lpid_t \<times> lsn_t) list" where
  "bf_tab_of d = (case d of ChkptBfTab es \<Rightarrow> es | _ \<Rightarrow> [])"

definition xct_tab_of :: "payload \<Rightarrow> tid_t \<times> xrec_t list" where
  "xct_tab_of d = (case d of ChkptXctTab y es \<Rightarrow> (y, es) | _ \<Rightarrow> (tid_null, []))"

definition dev_tab_of :: "payload \<Rightarrow> (nat \<times> nat) list" where
  "dev_tab_of d = (case d of ChkptDevTab es \<Rightarrow> es | _ \<Rightarrow> [])"

definition chkpt_end_of :: "payload \<Rightarrow> lsn_t \<times> lsn_t \<times> lsn_t" where
  "chkpt_end_of d = (case d of ChkptEnd b r u \<Rightarrow> (b, r, u) | _ \<Rightarrow> (lsn_null, lsn_null, lsn_null))"

definition xct_list_of :: "payload \<Rightarrow> tid_t list" where
  "xct_list_of d = (case d of XctList ts \<Rightarrow> ts | _ \<Rightarrow> [])"

definition chkpt_begin_of :: "payload \<Rightarrow> lsn_t" where
  "chkpt_begin_of d = (case d of ChkptBegin l \<Rightarrow> l | _ \<Rightarrow> lsn_null)"

text \<open>The first device entry of a mount or dismount record (\<open>dp->devrec[0]\<close>).\<close>

definition dev0_of :: "payload \<Rightarrow> nat \<times> nat" where
  "dev0_of d = (case d of ChkptDevTab (e # es) \<Rightarrow> e | _ \<Rightarrow> (0, 0))"

text \<open>
  Ending a transaction (\<open>t_xct_end\<close>, \<open>t_xct_abort\<close>, and with no lock release
  \<open>t_xct_freeing_space\<close>): through \<open>xd\<close>, which the code does not test for null.
\<close>

definition analysis_end_xct :: "bool \<Rightarrow> tid_t option \<Rightarrow> world \<Rightarrow> error + world" where
  "analysis_end_xct free_locks xd w =
     (case xd of
        None \<Rightarrow> Inl NullXct
      | Some t \<Rightarrow>
          (case look_up t w of
             None \<Rightarrow> Inl NullXct
           | Some x \<Rightarrow>
               (let w1 = (if free_locks \<and> (xct_state x = xct_freeing_space \<or> xct_state x = xct_aborting)
                          then emit (EvUnlockDuration t) w else w)
                in Inr (if xct_state x \<noteq> xct_ended
                        then upd_xct t (\<lambda>x. x\<lparr>xct_state := xct_ended\<rparr>) w1 else w1))))"

text \<open>\<open>t_xct_end_group\<close>: every listed transaction is ended; one that is not in the table
  fails \<open>w_assert0(xd)\<close>.\<close>

fun analysis_end_group :: "tid_t list \<Rightarrow> world \<Rightarrow> error + world" where
  "analysis_end_group [] w = Inr w"
| "analysis_end_group (t # ts) w =
     (case look_up t w of
        None \<Rightarrow> Inl AssertFailed
      | Some x \<Rightarrow>
          (case analysis_end_xct True (Some t) w of
             Inl e \<Rightarrow> Inl e
           | Inr w1 \<Rightarrow> analysis_end_group ts w1))"

text \<open>The end of the update case: the transaction of the record, if it is in the table, has
  its \<open>first_lsn\<close> lowered to the record's LSN.\<close>

definition analysis_first_lsn :: "lsn_t \<Rightarrow> logrec_t \<Rightarrow> astate \<Rightarrow> astate" where
  "analysis_first_lsn lsn r st =
     (if tid r \<noteq> tid_null then
        (case look_up (tid r) (a_world st) of
           Some x \<Rightarrow>
             (if lsn < xct_first_lsn x
              then st\<lparr>a_world :=
                     upd_xct (tid r) (\<lambda>x. x\<lparr>xct_first_lsn := lsn\<rparr>) (a_world st)\<rparr>
              else st)
         | None \<Rightarrow> st)
      else st)"

text \<open>
  The records that change pages (and \<open>t_compensate\<close>, \<open>t_store_operation\<close>): a page update
  that is undoable moves \<open>undo_nxt\<close> to the record and registers the page (or clears it, for
  an allocation or deallocation); a compensation record that is undoable is fatal, one
  that is not sets \<open>undo_nxt\<close> to null and registers the page if it is redoable; then the
  transaction's \<open>first_lsn\<close> is lowered to the record's LSN.
\<close>

definition analysis_update :: "lsn_t \<Rightarrow> logrec_t \<Rightarrow> tid_t option \<Rightarrow> astate \<Rightarrow> error + astate" where
  "analysis_update lsn r xd st =
     (case
        (if is_page_update r then
           (case (if is_undo r
                  then (case xd of
                          None \<Rightarrow> Inl NullXct
                        | Some t \<Rightarrow>
                            Inr (st\<lparr>a_world :=
                                   upd_xct t (\<lambda>x. x\<lparr>xct_undo_nxt := lsn\<rparr>) (a_world st)\<rparr>))
                  else Inr st) of
              Inl e \<Rightarrow> Inl e
            | Inr st1 \<Rightarrow>
                (if \<not> is_redo r then Inl AssertFailed
                 else if is_page_allocate r \<or> is_page_deallocate r
                 then Inr (analysis_clear_page r st1)
                 else analysis_mark_page (pid r) lsn st1))
         else if is_cpsn r then
           (if is_undo r then Inl Fatal
            else
              (case xd of
                 None \<Rightarrow> Inl NullXct
               | Some t \<Rightarrow>
                   (let st1 = st\<lparr>a_world :=
                                  upd_xct t (\<lambda>x. x\<lparr>xct_undo_nxt := lsn_null\<rparr>) (a_world st)\<rparr>
                    in if is_redo r then analysis_mark_page (pid r) lsn st1 else Inr st1)))
         else if rtype r \<noteq> t_store_operation then Inl Fatal
         else Inr st) of
        Inl e \<Rightarrow> Inl e
      | Inr st2 \<Rightarrow> Inr (analysis_first_lsn lsn r st2))"

text \<open>\<open>t_chkpt_end\<close>: the first one gives \<open>begin_chkpt\<close>, \<open>redo_lsn\<close> and \<open>undo_lsn\<close>, and its
  \<open>begin_chkpt\<close> must be the master; every one is counted.\<close>

definition analysis_chkpt_end :: "lsn_t \<Rightarrow> logrec_t \<Rightarrow> astate \<Rightarrow> error + astate" where
  "analysis_chkpt_end master r st =
     (if a_num_chkpt_end_handled st = 0 then
        (case chkpt_end_of (data r) of
           (b, rl, ul) \<Rightarrow>
             (if master \<noteq> b then Inl Fatal
              else Inr (st\<lparr>a_begin_chkpt := b, a_redo_lsn := rl, a_undo_lsn := ul,
                          a_num_chkpt_end_handled := a_num_chkpt_end_handled st + 1\<rparr>)))
      else Inr (st\<lparr>a_num_chkpt_end_handled := a_num_chkpt_end_handled st + 1\<rparr>))"

definition analysis_chkpt_bf_tab :: "logrec_t \<Rightarrow> astate \<Rightarrow> error + astate" where
  "analysis_chkpt_bf_tab r st =
     (if a_num_chkpt_end_handled st = 0 then chkpt_bf_entries (bf_tab_of (data r)) st
      else Inr st)"

definition analysis_chkpt_xct_tab :: "logrec_t \<Rightarrow> astate \<Rightarrow> error + astate" where
  "analysis_chkpt_xct_tab r st =
     (if a_num_chkpt_end_handled st = 0 then
        (case xct_tab_of (data r) of
           (youngest, es) \<Rightarrow>
             Inr (st\<lparr>a_world := chkpt_xct_entries es (update_youngest_tid youngest (a_world st))\<rparr>))
      else Inr st)"

definition analysis_chkpt_dev_tab :: "logrec_t \<Rightarrow> astate \<Rightarrow> error + astate" where
  "analysis_chkpt_dev_tab r st =
     (if a_num_chkpt_end_handled st = 0 then
        Inr (st\<lparr>a_world := chkpt_dev_entries (dev_tab_of (data r)) (a_world st),
                a_mount := (a_mount st \<or> dev_tab_of (data r) \<noteq> [])\<rparr>)
      else Inr st)"

definition analysis_mount :: "lsn_t \<Rightarrow> logrec_t \<Rightarrow> astate \<Rightarrow> error + astate" where
  "analysis_mount lsn r st =
     (if lsn < a_redo_lsn st
      then Inr (st\<lparr>a_world := emit (EvRedoNoPage lsn) (a_world st),
                   a_mount := (a_mount st \<or> rtype r = t_mount_vol)\<rparr>)
      else Inr st)"

definition lift_world :: "astate \<Rightarrow> error + world \<Rightarrow> error + astate" where
  "lift_world st m = (case m of Inl e \<Rightarrow> Inl e | Inr w \<Rightarrow> Inr (st\<lparr>a_world := w\<rparr>))"

text \<open>The \<open>switch (r.type())\<close> of the scan loop.\<close>

definition analysis_switch ::
  "lsn_t \<Rightarrow> lsn_t \<Rightarrow> logrec_t \<Rightarrow> tid_t option \<Rightarrow> astate \<Rightarrow> error + astate" where
  "analysis_switch master lsn r xd st =
     (case rtype r of
        t_chkpt_begin \<Rightarrow> Inr st
      | t_chkpt_bf_tab \<Rightarrow> analysis_chkpt_bf_tab r st
      | t_chkpt_xct_tab \<Rightarrow> analysis_chkpt_xct_tab r st
      | t_chkpt_dev_tab \<Rightarrow> analysis_chkpt_dev_tab r st
      | t_dismount_vol \<Rightarrow> analysis_mount lsn r st
      | t_mount_vol \<Rightarrow> analysis_mount lsn r st
      | t_chkpt_end \<Rightarrow> analysis_chkpt_end master r st
      | t_xct_freeing_space \<Rightarrow> lift_world st (analysis_end_xct False xd (a_world st))
      | t_xct_end_group \<Rightarrow> lift_world st (analysis_end_group (xct_list_of (data r)) (a_world st))
      | t_xct_abort \<Rightarrow> lift_world st (analysis_end_xct True xd (a_world st))
      | t_xct_end \<Rightarrow> lift_world st (analysis_end_xct True xd (a_world st))
      | t_compensate \<Rightarrow> analysis_update lsn r xd st
      | t_alloc_a_page \<Rightarrow> analysis_update lsn r xd st
      | t_alloc_consecutive_pages \<Rightarrow> analysis_update lsn r xd st
      | t_dealloc_a_page \<Rightarrow> analysis_update lsn r xd st
      | t_store_operation \<Rightarrow> analysis_update lsn r xd st
      | t_page_set_to_be_deleted \<Rightarrow> analysis_update lsn r xd st
      | t_page_img_format \<Rightarrow> analysis_update lsn r xd st
      | t_btree_norec_alloc \<Rightarrow> analysis_update lsn r xd st
      | t_btree_insert \<Rightarrow> analysis_update lsn r xd st
      | t_btree_insert_nonghost \<Rightarrow> analysis_update lsn r xd st
      | t_btree_update \<Rightarrow> analysis_update lsn r xd st
      | t_btree_overwrite \<Rightarrow> analysis_update lsn r xd st
      | t_btree_ghost_mark \<Rightarrow> analysis_update lsn r xd st
      | t_btree_ghost_reclaim \<Rightarrow> analysis_update lsn r xd st
      | t_btree_ghost_reserve \<Rightarrow> analysis_update lsn r xd st
      | t_btree_foster_adopt \<Rightarrow> analysis_update lsn r xd st
      | t_btree_foster_merge \<Rightarrow> analysis_update lsn r xd st
      | t_btree_foster_rebalance \<Rightarrow> analysis_update lsn r xd st
      | t_btree_foster_rebalance_norec \<Rightarrow> analysis_update lsn r xd st
      | t_btree_foster_deadopt \<Rightarrow> analysis_update lsn r xd st
      | _ \<Rightarrow>
          (if rtype r \<noteq> t_comment \<and> \<not> is_skip r \<and> rtype r \<noteq> t_max_logrec
           then Inl Fatal else Inr st))"

text \<open>The body of the scan loop of \<open>analysis_pass\<close> for one record.\<close>

definition analysis_record ::
  "lsn_t \<Rightarrow> lsn_t \<Rightarrow> lsn_t \<Rightarrow> logrec_t \<Rightarrow> astate \<Rightarrow> error + astate" where
  "analysis_record master max_lsn lsn r st0 =
     (if lsn \<noteq> lsn_ck r then Inl Fatal
      else
        (let st = st0\<lparr>a_last_lsn := lsn\<rparr> in
         if is_single_sys_xct r then analysis_ssx lsn r st
         else
           (case analysis_attach lsn max_lsn r (a_world st) of
              (w1, xd) \<Rightarrow> analysis_switch master lsn r xd (st\<lparr>a_world := w1\<rparr>))))"

fun analysis_scan ::
  "lsn_t \<Rightarrow> lsn_t \<Rightarrow> (lsn_t \<times> logrec_t) list \<Rightarrow> astate \<Rightarrow> error + astate" where
  "analysis_scan master max_lsn [] st = Inr st"
| "analysis_scan master max_lsn ((lsn, r) # rest) st =
     (case analysis_record master max_lsn lsn r st of
        Inl e \<Rightarrow> Inl e
      | Inr st1 \<Rightarrow> analysis_scan master max_lsn rest st1)"

definition set_mode :: "operating_mode_t \<Rightarrow> world \<Rightarrow> world" where
  "set_mode m w = emit (EvSetMode m) (w\<lparr>operating_mode := m\<rparr>)"

definition set_swizzling_enabled :: "bool \<Rightarrow> world \<Rightarrow> world" where
  "set_swizzling_enabled b w = emit (EvSetSwizzling b) (w\<lparr>swizzling_enabled := b\<rparr>)"

definition analysis_init :: "world \<Rightarrow> astate" where
  "analysis_init w =
     \<lparr>a_world = w, a_redo_lsn = lsn_null, a_undo_lsn = lsn_null, a_last_lsn = lsn_null,
      a_in_doubt_count = 0, a_begin_chkpt = lsn_null, a_mount = False,
      a_num_chkpt_end_handled = 0\<rparr>"

text \<open>
  The forward scan from the master: the first record must be a begin-checkpoint (it gives
  the last mount LSN before the checkpoint); the loop runs over the records after it; at
  its end \<open>redo_lsn\<close> and \<open>undo_lsn\<close> must not be null, and are clamped to the master.
\<close>

definition analysis_log_scan :: "lsn_t \<Rightarrow> world \<Rightarrow> error + (astate \<times> lsn_t)" where
  "analysis_log_scan master w =
     (case log_scan master w of
        [] \<Rightarrow> Inl Fatal
      | (lsn0, r0) # rest \<Rightarrow>
          (if rtype r0 \<noteq> t_chkpt_begin then Inl Fatal
           else
             (case analysis_scan master (curr_lsn w + 1) rest (analysis_init w) of
                Inl e \<Rightarrow> Inl e
              | Inr st \<Rightarrow>
                  (if lsn_null = a_redo_lsn st then Inl Fatal
                   else if lsn_null = a_undo_lsn st then Inl Fatal
                   else Inr (st\<lparr>a_redo_lsn := (if a_redo_lsn st > master then master
                                                else a_redo_lsn st),
                               a_undo_lsn := (if a_undo_lsn st > master then master
                                                else a_undo_lsn st)\<rparr>,
                             chkpt_begin_of (data r0))))))"

text \<open>
  The mounts and dismounts between \<open>redo_lsn\<close> and the checkpoint, followed backwards
  through \<open>xid_prev\<close>: a dismount is mounted again, a mount is dismounted. The loop runs
  for as long as the chain stays above \<open>redo_lsn\<close>; not returning is \<open>None\<close>.
\<close>

partial_function (option) redo_mounts ::
  "lsn_t \<Rightarrow> lsn_t \<Rightarrow> bool \<Rightarrow> world \<Rightarrow> (error + (lsn_t \<times> bool \<times> world)) option" where
  "redo_mounts last_mount redo_lsn mnt w =
     (if last_mount \<noteq> lsn_null \<and> last_mount > redo_lsn then
        (case log_fetch last_mount w of
           None \<Rightarrow> Some (Inl Fatal)
         | Some r \<Rightarrow>
             (if rtype r = t_dismount_vol
              then redo_mounts (xid_prev r) redo_lsn True
                     (emit (EvMount (fst (dev0_of (data r))) (snd (dev0_of (data r)))) w)
              else redo_mounts (xid_prev r) redo_lsn mnt
                     (emit (EvDismount (snd (dev0_of (data r)))) w)))
      else Some (Inr (last_mount, mnt, w)))"

declare redo_mounts.simps [code]

text \<open>Analysis up to the sweep of the transaction table.\<close>

definition analysis_to_sweep :: "lsn_t \<Rightarrow> world \<Rightarrow> (error + astate) option" where
  "analysis_to_sweep master w =
     (case analysis_log_scan master w of
        Inl e \<Rightarrow> Some (Inl e)
      | Inr (st, last_mount) \<Rightarrow>
          (case (if 0 \<noteq> a_in_doubt_count st
                 then redo_mounts last_mount (a_redo_lsn st) (a_mount st) (a_world st)
                 else Some (Inr (last_mount, a_mount st, a_world st))) of
             None \<Rightarrow> None
           | Some (Inl e) \<Rightarrow> Some (Inl e)
           | Some (Inr (lm, mnt, w1)) \<Rightarrow>
               Some (Inr (st\<lparr>a_world := emit (EvSetLastMountLSN lm) w1, a_mount := mnt\<rparr>))))"

text \<open>
  The sweep of the transaction table: an active transaction lowers \<open>commit_lsn\<close> to its
  \<open>first_lsn\<close>, has its \<open>first_lsn\<close> reset to null and, in serial mode, goes into the heap;
  an ended one is destroyed; any other state is fatal. The result is the table that
  is left, the heap elements and \<open>commit_lsn\<close>.
\<close>

fun analysis_sweep ::
  "config \<Rightarrow> xct_t list \<Rightarrow> lsn_t \<Rightarrow> error + (xct_t list \<times> tid_t list \<times> lsn_t)" where
  "analysis_sweep cfg [] commit_lsn = Inr ([], [], commit_lsn)"
| "analysis_sweep cfg (xd # xs) commit_lsn =
     (if xct_active = xct_state xd then
        (case analysis_sweep cfg xs
                (if commit_lsn > xct_first_lsn xd then xct_first_lsn xd else commit_lsn) of
           Inl e \<Rightarrow> Inl e
         | Inr (kept, heap, c) \<Rightarrow>
             Inr (xd\<lparr>xct_first_lsn := lsn_null\<rparr> # kept,
                  (if use_serial_recovery cfg then xct_tid xd # heap else heap), c))
      else if xct_ended = xct_state xd then analysis_sweep cfg xs commit_lsn
      else Inl Fatal)"

section \<open>The Undo heap\<close>

text \<open>
  Modelled from the spec: the heap (\<open>w_heap.h\<close>, \<open>CmpXctUndoLsns\<close>) is not part of the
  sources at hand. It is a max-heap of transaction references keyed by \<open>undo_next_lsn\<close>:
  \<open>First\<close> is a transaction with the largest key, \<open>Second\<close> one with the largest key among
  the others. Here the heap is the list of the tids, largest key first.
\<close>

definition undo_nxt_of :: "world \<Rightarrow> tid_t \<Rightarrow> lsn_t" where
  "undo_nxt_of w t = (case look_up t w of Some x \<Rightarrow> xct_undo_nxt x | None \<Rightarrow> lsn_null)"

fun heap_insert :: "world \<Rightarrow> tid_t \<Rightarrow> tid_t list \<Rightarrow> tid_t list" where
  "heap_insert w t [] = [t]"
| "heap_insert w t (h # hs) =
     (if undo_nxt_of w t \<ge> undo_nxt_of w h then t # h # hs else h # heap_insert w t hs)"

definition heapify :: "world \<Rightarrow> tid_t list \<Rightarrow> tid_t list" where
  "heapify w ts = foldr (heap_insert w) ts []"

record aresult =
  r_world :: world
  r_redo_lsn :: lsn_t
  r_in_doubt_count :: "32 word"
  r_undo_lsn :: lsn_t
  r_heap :: "tid_t list"
  r_commit_lsn :: lsn_t
  r_last_lsn :: lsn_t

text \<open>\<open>analysis_pass\<close>; \<open>commit_in\<close> is the value of the out-parameter \<open>commit_lsn\<close> on entry.\<close>

definition analysis_pass ::
  "config \<Rightarrow> lsn_t \<Rightarrow> lsn_t \<Rightarrow> world \<Rightarrow> (error + aresult) option" where
  "analysis_pass cfg master commit_in w =
     (let w0 = set_mode t_in_analysis w in
      if master = lsn_null then
        Some (Inr \<lparr>r_world = w0, r_redo_lsn = lsn_null, r_in_doubt_count = 0,
                   r_undo_lsn = lsn_null, r_heap = [], r_commit_lsn = commit_in,
                   r_last_lsn = lsn_null\<rparr>)
      else
        (let max_lsn = curr_lsn w0 + 1 in
         case analysis_to_sweep master w0 of
           None \<Rightarrow> None
         | Some (Inl e) \<Rightarrow> Some (Inl e)
         | Some (Inr st) \<Rightarrow>
             (case analysis_sweep cfg (xct_tab (a_world st)) max_lsn of
                Inl e \<Rightarrow> Some (Inl e)
              | Inr (kept, heap, c) \<Rightarrow>
                  (let w1 = (a_world st)\<lparr>xct_tab := kept\<rparr> in
                   if use_concurrent_lock_recovery cfg then Some (Inl Fatal)
                   else
                     Some (Inr \<lparr>r_world = w1, r_redo_lsn = a_redo_lsn st,
                                r_in_doubt_count = a_in_doubt_count st,
                                r_undo_lsn = a_undo_lsn st,
                                r_heap = (if use_serial_recovery cfg then heapify w1 heap
                                          else heap),
                                r_commit_lsn = (if c = max_lsn then lsn_null else c),
                                r_last_lsn = a_last_lsn st\<rparr>)))))"

section \<open>Rollback and abort of a transaction\<close>

text \<open>
  Modelled from the spec: \<open>xct_t::rollback\<close> and \<open>xct_t::abort\<close> are not part of the sources
  at hand. Rollback to a floor follows the transaction's \<open>undo_next_lsn\<close> backwards through
  the log, invoking the undo function of each undoable record (which writes the
  compensation record; here the call \<open>EvUndo\<close>) and moving \<open>undo_next_lsn\<close> to the prior
  record; it stops when \<open>undo_next_lsn \<le> floor\<close> (null is the least LSN). A record that
  cannot be fetched is fatal. Abort rolls back without a floor and ends the transaction.
  The loop follows the chain for as long as it stays above the floor; not returning is
  \<open>None\<close>.
\<close>

partial_function (option) rollback_loop ::
  "tid_t \<Rightarrow> lsn_t \<Rightarrow> lsn_t \<Rightarrow> world \<Rightarrow> (error + (lsn_t \<times> world)) option" where
  "rollback_loop t save_pt nxt w =
     (if save_pt < nxt then
        (case log_fetch nxt w of
           None \<Rightarrow> Some (Inl Fatal)
         | Some r \<Rightarrow>
             rollback_loop t save_pt (xid_prev r)
               (if is_undo r then emit (EvUndo t nxt) w else w))
      else Some (Inr (nxt, w)))"

declare rollback_loop.simps [code]

definition rollback :: "tid_t \<Rightarrow> lsn_t \<Rightarrow> world \<Rightarrow> (error + world) option" where
  "rollback t save_pt w =
     (case look_up t w of
        None \<Rightarrow> Some (Inl NullXct)
      | Some x \<Rightarrow>
          (case rollback_loop t save_pt (xct_undo_nxt x) (emit (EvRollback t save_pt) w) of
             None \<Rightarrow> None
           | Some (Inl e) \<Rightarrow> Some (Inl e)
           | Some (Inr (nxt, w1)) \<Rightarrow>
               Some (Inr (upd_xct t (\<lambda>x. x\<lparr>xct_undo_nxt := nxt\<rparr>) w1))))"

definition abort_xct :: "tid_t \<Rightarrow> world \<Rightarrow> (error + world) option" where
  "abort_xct t w =
     (case look_up t w of
        None \<Rightarrow> Some (Inl NullXct)
      | Some x \<Rightarrow>
          (case rollback_loop t lsn_null (xct_undo_nxt x) (emit (EvAbort t) w) of
             None \<Rightarrow> None
           | Some (Inl e) \<Rightarrow> Some (Inl e)
           | Some (Inr (nxt, w1)) \<Rightarrow>
               Some (Inr (upd_xct t (\<lambda>x. x\<lparr>xct_undo_nxt := nxt, xct_state := xct_ended\<rparr>) w1))))"

section \<open>Reverse-chronological Undo: \<open>restart_m::undo_reverse_pass\<close>\<close>

text \<open>
  The rollback loop. It is entered only with more than one transaction in the heap, and the
  number of heap elements does not change in it, so the test on the size is part of each
  round here. The top transaction with a non-null \<open>undo_nxt\<close> is rolled back to the
  \<open>undo_nxt\<close> of the second (a single-log system transaction just has its \<open>undo_nxt\<close>
  set to null), and the heap is put in order again (\<open>ReplacedFirst\<close>). The loop ends when
  the top's \<open>undo_nxt\<close> is null; not ending is \<open>None\<close>.
\<close>

partial_function (option) undo_reverse_loop ::
  "tid_t list \<Rightarrow> world \<Rightarrow> (error + (tid_t list \<times> world)) option" where
  "undo_reverse_loop heap w =
     (case heap of
        t1 # t2 # rest \<Rightarrow>
          (case look_up t1 w of
             None \<Rightarrow> Some (Inl NullXct)
           | Some xd \<Rightarrow>
               (if xct_undo_nxt xd \<noteq> lsn_null then
                  (if xct_is_sys xd \<and> xct_is_single_log_sys xd then
                     undo_reverse_loop
                       (heap_insert (upd_xct t1 (\<lambda>x. x\<lparr>xct_undo_nxt := lsn_null\<rparr>) w) t1 (t2 # rest))
                       (upd_xct t1 (\<lambda>x. x\<lparr>xct_undo_nxt := lsn_null\<rparr>) w)
                   else
                     (case look_up t2 w of
                        None \<Rightarrow> Some (Inl NullXct)
                      | Some x2 \<Rightarrow>
                          (case rollback t1 (xct_undo_nxt x2) w of
                             None \<Rightarrow> None
                           | Some (Inl e) \<Rightarrow> Some (Inl e)
                           | Some (Inr w1) \<Rightarrow>
                               undo_reverse_loop (heap_insert w1 t1 (t2 # rest)) w1)))
                else Some (Inr (heap, w))))
      | _ \<Rightarrow> Some (Inr (heap, w)))"

declare undo_reverse_loop.simps [code]

text \<open>Draining the heap: every transaction left is aborted and destroyed.\<close>

fun undo_drain :: "tid_t list \<Rightarrow> world \<Rightarrow> (error + world) option" where
  "undo_drain [] w = Some (Inr w)"
| "undo_drain (t # ts) w =
     (case abort_xct t w of
        None \<Rightarrow> None
      | Some (Inl e) \<Rightarrow> Some (Inl e)
      | Some (Inr w1) \<Rightarrow> undo_drain ts (destroy_xct t w1))"

definition doomed_active :: "xct_t \<Rightarrow> bool" where
  "doomed_active xd = (xct_is_doomed xd \<and> xct_active = xct_state xd)"

definition undo_reverse_pass :: "config \<Rightarrow> tid_t list \<Rightarrow> world \<Rightarrow> (error + world) option" where
  "undo_reverse_pass cfg heap0 w =
     (let heap = (if \<not> use_serial_recovery cfg \<and> use_undo_reverse_recovery cfg
                  then heapify w (heap0 @ map xct_tid (filter doomed_active (xct_tab w)))
                  else heap0)
      in if heap = [] then Some (Inr w)
         else
           (case undo_reverse_loop heap (emit EvLogComment w) of
              None \<Rightarrow> None
            | Some (Inl e) \<Rightarrow> Some (Inl e)
            | Some (Inr (heap1, w1)) \<Rightarrow>
                (case undo_drain heap1 w1 of
                   None \<Rightarrow> None
                 | Some (Inl e) \<Rightarrow> Some (Inl e)
                 | Some (Inr w2) \<Rightarrow> Some (Inr (emit EvFlushAll w2)))))"

section \<open>Transaction-driven Undo: \<open>restart_m::_undo_txn_pass\<close>\<close>

text \<open>
  The walk over the entries of the transaction table. A doomed active transaction with a
  non-null \<open>undo_nxt\<close> is aborted and destroyed (a system transaction has its \<open>undo_nxt\<close>
  set to null instead); one with a null \<open>undo_nxt\<close> is passed over, as is every other
  entry.
\<close>

fun undo_txn_walk :: "xct_t list \<Rightarrow> world \<Rightarrow> (error + world) option" where
  "undo_txn_walk [] w = Some (Inr w)"
| "undo_txn_walk (xd # xs) w =
     (if xct_is_doomed xd \<and> xct_active = xct_state xd then
        (if lsn_null \<noteq> xct_undo_nxt xd then
           (if xct_is_sys xd then
              undo_txn_walk xs (upd_xct (xct_tid xd) (\<lambda>x. x\<lparr>xct_undo_nxt := lsn_null\<rparr>) w)
            else
              (case abort_xct (xct_tid xd) w of
                 None \<Rightarrow> None
               | Some (Inl e) \<Rightarrow> Some (Inl e)
               | Some (Inr w1) \<Rightarrow> undo_txn_walk xs (destroy_xct (xct_tid xd) w1)))
         else undo_txn_walk xs w)
      else undo_txn_walk xs w)"

definition undo_txn_pass :: "world \<Rightarrow> (error + world) option" where
  "undo_txn_pass w =
     (if 0 = num_active_xcts w then Some (Inr w)
      else
        (case undo_txn_walk (xct_tab w) (emit EvLogComment w) of
           None \<Rightarrow> None
         | Some (Inl e) \<Rightarrow> Some (Inl e)
         | Some (Inr w1) \<Rightarrow> Some (Inr ((emit EvFlushAll w1)\<lparr>g_commit_lsn := lsn_null\<rparr>))))"

section \<open>The coordinator: \<open>restart_m::recover\<close>\<close>

text \<open>
  The checkpoint, the buffer-pool flush and the log flush are calls into collaborators and
  appear in the trace. The result carries the out-parameters \<open>commit_lsn\<close>, \<open>redo_lsn\<close>,
  \<open>last_lsn\<close> and \<open>in_doubt_count\<close>.
\<close>

definition recover_redo :: "config \<Rightarrow> aresult \<Rightarrow> world \<Rightarrow> error + world" where
  "recover_redo cfg res w =
     (if 0 \<noteq> r_in_doubt_count res then
        (case redo_log_pass cfg (r_redo_lsn res) (curr_lsn w) (r_in_doubt_count res) w of
           Inl e \<Rightarrow> Inl e
         | Inr w1 \<Rightarrow> Inr (emit EvForceAll w1))
      else Inr w)"

definition recover_undo :: "config \<Rightarrow> aresult \<Rightarrow> nat \<Rightarrow> world \<Rightarrow> (error + world) option" where
  "recover_undo cfg res xct_count w =
     (if 0 \<noteq> xct_count then
        (case undo_reverse_pass cfg (r_heap res) w of
           None \<Rightarrow> None
         | Some (Inl e) \<Rightarrow> Some (Inl e)
         | Some (Inr w1) \<Rightarrow> Some (Inr (emit EvSynchTake w1)))
      else Some (Inr w))"

definition recover ::
  "config \<Rightarrow> lsn_t \<Rightarrow> world \<Rightarrow> (error + (world \<times> lsn_t \<times> lsn_t \<times> lsn_t \<times> 32 word)) option" where
  "recover cfg master w =
     (if operating_mode w \<noteq> t_not_started then Some (Inl Fatal)
      else
        (let org_swizzling_enabled = swizzling_enabled w;
             w1 = (if org_swizzling_enabled then set_swizzling_enabled False w else w)
         in case analysis_pass cfg master lsn_null w1 of
              None \<Rightarrow> None
            | Some (Inl e) \<Rightarrow> Some (Inl e)
            | Some (Inr res) \<Rightarrow>
                (let xct_count = num_active_xcts (r_world res);
                     w2 = emit EvSynchTake (r_world res);
                     outs = (r_commit_lsn res, r_redo_lsn res, r_last_lsn res,
                             r_in_doubt_count res)
                 in if \<not> use_serial_recovery cfg then Some (Inr (w2, outs))
                    else
                      (case recover_redo cfg res (set_mode t_in_redo w2) of
                         Inl e \<Rightarrow> Some (Inl e)
                       | Inr w3 \<Rightarrow>
                           (case recover_undo cfg res xct_count (set_mode t_in_undo w3) of
                              None \<Rightarrow> None
                            | Some (Inl e) \<Rightarrow> Some (Inl e)
                            | Some (Inr w4) \<Rightarrow>
                                Some (Inr ((if org_swizzling_enabled
                                            then set_swizzling_enabled True w4 else w4),
                                           outs)))))))"

section \<open>Sample records, pages and states\<close>

definition pid42 :: lpid_t where
  "pid42 = \<lparr>pid_vol = 1, pid_store = 1, pid_page = 42\<rparr>"

definition pid_none :: lpid_t where
  "pid_none = \<lparr>pid_vol = 0, pid_store = 0, pid_page = 0\<rparr>"

text \<open>A record with every flag off; the samples below change the fields they need.\<close>

definition logrec0 :: logrec_t where
  "logrec0 =
     \<lparr>rtype = t_comment, tid = tid_null, pid = pid_none, pid2 = pid_none, xid_prev = lsn_null,
      lsn_ck = lsn_null, hdr_ok = True, is_redo = False, is_undo = False, is_cpsn = False,
      is_single_sys_xct = False, is_multi_page = False, data = NoData\<rparr>"

text \<open>Transaction 7 inserts into page 42 at LSN 200.\<close>

definition rec_insert200 :: logrec_t where
  "rec_insert200 =
     logrec0\<lparr>rtype := t_btree_insert, tid := 7, pid := pid42, lsn_ck := 200,
             is_redo := True, is_undo := True\<rparr>"

definition cb42 :: bf_cb where
  "cb42 = fresh_cb pid42 200"

definition world0 :: world where
  "world0 =
     \<lparr>operating_mode = t_not_started, swizzling_enabled = True, bf = Map.empty, bf_free = 8,
      disk = (\<lambda>k. LoadPastEnd), xct_tab = [], nxt_tid = 0, the_log = [], curr_lsn = 1000,
      g_commit_lsn = lsn_null, trace = []\<rparr>"

text \<open>Page 42 is in-doubt; its image on disk was last written at LSN 150.\<close>

definition world_redo :: world where
  "world_redo =
     world0\<lparr>operating_mode := t_in_redo, swizzling_enabled := False,
            bf := [bf_key 1 42 \<mapsto> cb42],
            disk := (\<lambda>k. if k = bf_key 1 42 then LoadOk 150 else LoadPastEnd)\<rparr>"

definition cfg_serial :: config where
  "cfg_serial =
     \<lparr>use_serial_recovery = True, use_redo_log_recovery = True,
      use_undo_reverse_recovery = True, use_concurrent_lock_recovery = False\<rparr>"

definition cfg_concurrent :: config where
  "cfg_concurrent =
     \<lparr>use_serial_recovery = False, use_redo_log_recovery = True,
      use_undo_reverse_recovery = False, use_concurrent_lock_recovery = False\<rparr>"

definition rec_insert300 :: logrec_t where
  "rec_insert300 = rec_insert200\<lparr>lsn_ck := 300\<rparr>"

text \<open>The log holds the two inserts into page 42, at LSN 200 and at LSN 300.\<close>

definition world_redo_log :: world where
  "world_redo_log = world_redo\<lparr>the_log := [(200, rec_insert200), (300, rec_insert300)]\<rparr>"

text \<open>The record types of the \<open>case\<close> labels that share the update case of the dispatch in
  \<open>analysis_pass\<close> (from \<open>t_compensate\<close> to \<open>t_btree_foster_deadopt\<close>).\<close>

definition is_update_kind :: "kind_t \<Rightarrow> bool" where
  "is_update_kind k =
     (k \<in> {t_compensate, t_alloc_a_page, t_alloc_consecutive_pages, t_dealloc_a_page,
            t_store_operation, t_page_set_to_be_deleted, t_page_img_format,
            t_btree_norec_alloc, t_btree_insert, t_btree_insert_nonghost, t_btree_update,
            t_btree_overwrite, t_btree_ghost_mark, t_btree_ghost_reclaim,
            t_btree_ghost_reserve, t_btree_foster_adopt, t_btree_foster_merge,
            t_btree_foster_rebalance, t_btree_foster_rebalance_norec,
            t_btree_foster_deadopt})"

text \<open>Transaction 7, active, with its insert at LSN 200 to undo.\<close>

definition xct7 :: xct_t where
  "xct7 =
     \<lparr>xct_tid = 7, xct_state = xct_active, xct_last_lsn = 200, xct_first_lsn = 200,
      xct_undo_nxt = 200, xct_is_sys = False, xct_is_single_log_sys = False,
      xct_is_doomed = True\<rparr>"

text \<open>A compensation record of transaction 7 on page 42, at LSN 400.\<close>

definition rec_clr400 :: logrec_t where
  "rec_clr400 =
     logrec0\<lparr>rtype := t_btree_insert, tid := 7, pid := pid42, lsn_ck := 400,
             is_redo := True, is_cpsn := True\<rparr>"

definition astate_t7 :: astate where
  "astate_t7 = analysis_init (world0\<lparr>operating_mode := t_in_analysis, xct_tab := [xct7]\<rparr>)"

text \<open>A buffer-table record of a second checkpoint, at LSN 900, met after the master
  checkpoint (begun at 500) has been handled; and the end record of that second checkpoint.\<close>

definition rec_bf_tab900 :: logrec_t where
  "rec_bf_tab900 =
     logrec0\<lparr>rtype := t_chkpt_bf_tab, lsn_ck := 900, data := ChkptBfTab [(pid42, 150)]\<rparr>"

definition rec_chkpt_end950 :: logrec_t where
  "rec_chkpt_end950 =
     logrec0\<lparr>rtype := t_chkpt_end, lsn_ck := 950, data := ChkptEnd 890 150 150\<rparr>"

definition astate_after_master :: astate where
  "astate_after_master =
     (analysis_init (world0\<lparr>operating_mode := t_in_analysis\<rparr>))
       \<lparr>a_redo_lsn := 480, a_undo_lsn := 480, a_last_lsn := 880, a_begin_chkpt := 500,
        a_num_chkpt_end_handled := 1\<rparr>"

text \<open>The doomed transactions of a transaction table: the entries in state active.\<close>

definition doomed_of :: "world \<Rightarrow> xct_t list" where
  "doomed_of w = filter (\<lambda>x. xct_state x = xct_active) (xct_tab w)"

text \<open>What an outcome of \<open>analysis_pass\<close> shows: the \<open>commit_lsn\<close> it returns, and the tids
  of the doomed transactions it leaves in the table.\<close>

definition commit_lsn_of :: "(error + aresult) option \<Rightarrow> lsn_t option" where
  "commit_lsn_of m = (case m of Some (Inr res) \<Rightarrow> Some (r_commit_lsn res) | _ \<Rightarrow> None)"

definition doomed_tids_of :: "(error + aresult) option \<Rightarrow> tid_t list" where
  "doomed_tids_of m =
     (case m of Some (Inr res) \<Rightarrow> map xct_tid (doomed_of (r_world res)) | _ \<Rightarrow> [])"

text \<open>A master checkpoint begun at 500 and ended at 700, with \<open>min_rec_lsn\<close> and
  \<open>min_xct_lsn\<close> 480.\<close>

definition rec_chkpt_begin500 :: logrec_t where
  "rec_chkpt_begin500 =
     logrec0\<lparr>rtype := t_chkpt_begin, lsn_ck := 500, data := ChkptBegin lsn_null\<rparr>"

definition rec_chkpt_end700 :: logrec_t where
  "rec_chkpt_end700 =
     logrec0\<lparr>rtype := t_chkpt_end, lsn_ck := 700, data := ChkptEnd 500 480 480\<rparr>"

text \<open>The checkpoint's transaction table lists transaction 7 as active, with a null
  \<open>first_lsn\<close>.\<close>

definition xrec7_nofirst :: xrec_t where
  "xrec7_nofirst =
     \<lparr>xrec_tid = 7, xrec_state = xct_active, xrec_last_lsn = 200, xrec_undo_nxt = 200,
      xrec_first_lsn = lsn_null\<rparr>"

definition rec_chkpt_xct600 :: logrec_t where
  "rec_chkpt_xct600 =
     logrec0\<lparr>rtype := t_chkpt_xct_tab, lsn_ck := 600, data := ChkptXctTab 7 [xrec7_nofirst]\<rparr>"

definition world_chkpt_xct :: world where
  "world_chkpt_xct =
     world0\<lparr>the_log := [(500, rec_chkpt_begin500), (600, rec_chkpt_xct600),
                        (700, rec_chkpt_end700)]\<rparr>"

text \<open>After the checkpoint, transaction 7 inserts into page 42 at LSN 800 and is in flight
  at the crash.\<close>

definition rec_insert800 :: logrec_t where
  "rec_insert800 = rec_insert200\<lparr>lsn_ck := 800\<rparr>"

definition world_inflight :: world where
  "world_inflight =
     world0\<lparr>the_log := [(500, rec_chkpt_begin500), (700, rec_chkpt_end700),
                        (800, rec_insert800)]\<rparr>"

text \<open>Transaction 7 ends at LSN 850; page 42 is on disk, last written at 150.\<close>

definition rec_xct_end850 :: logrec_t where
  "rec_xct_end850 = logrec0\<lparr>rtype := t_xct_end, tid := 7, lsn_ck := 850\<rparr>"

definition world_committed :: world where
  "world_committed =
     world0\<lparr>disk := (\<lambda>k. if k = bf_key 1 42 then LoadOk 150 else LoadPastEnd),
            the_log := [(500, rec_chkpt_begin500), (700, rec_chkpt_end700),
                        (800, rec_insert800), (850, rec_xct_end850)]\<rparr>"

definition world_inflight_disk :: world where
  "world_inflight_disk =
     world_inflight\<lparr>disk := (\<lambda>k. if k = bf_key 1 42 then LoadOk 150 else LoadPastEnd)\<rparr>"

text \<open>The calls that a returning \<open>recover\<close> has made.\<close>

definition trace_of ::
  "(error + (world \<times> lsn_t \<times> lsn_t \<times> lsn_t \<times> 32 word)) option \<Rightarrow> event list option" where
  "trace_of m = (case m of Some (Inr (w, outs)) \<Rightarrow> Some (trace w) | _ \<Rightarrow> None)"

text \<open>Transaction 8 with its insert at LSN 300 to undo.\<close>

definition xct8 :: xct_t where
  "xct8 =
     \<lparr>xct_tid = 8, xct_state = xct_active, xct_last_lsn = 300, xct_first_lsn = lsn_null,
      xct_undo_nxt = 300, xct_is_sys = False, xct_is_single_log_sys = False,
      xct_is_doomed = True\<rparr>"

definition rec_insert300_t8 :: logrec_t where
  "rec_insert300_t8 = rec_insert200\<lparr>tid := 8, lsn_ck := 300\<rparr>"

section \<open>A well-formed log and Undo heap\<close>

text \<open>
  The states in which reverse Undo is shown to run to its end. \<open>owned w t l\<close>: the LSN \<open>l\<close>
  is null or that of a record of transaction \<open>t\<close>. \<open>log_chains\<close>: the backward pointer of
  every record is below the record's LSN and is null or leads to a record of the same
  transaction. \<open>undo_ready\<close>: the transactions of the heap are distinct and in the table,
  the \<open>undo_nxt\<close> of each is null or on its own chain, and the heap is in order, the largest
  \<open>undo_nxt\<close> first. \<open>undo_left\<close> is the sum of the \<open>undo_nxt\<close> of the heap, the measure by
  which the loop ends.
\<close>

definition owned :: "world \<Rightarrow> tid_t \<Rightarrow> lsn_t \<Rightarrow> bool" where
  "owned w t l = (l = lsn_null \<or> map_option tid (log_fetch l w) = Some t)"

definition log_chains :: "world \<Rightarrow> bool" where
  "log_chains w =
     (\<forall>(l, r) \<in> set (the_log w). xid_prev r < l \<and> owned w (tid r) (xid_prev r))"

definition undo_ready :: "tid_t list \<Rightarrow> world \<Rightarrow> bool" where
  "undo_ready heap w =
     (distinct heap
      \<and> (\<forall>t \<in> set heap. case look_up t w of None \<Rightarrow> False
                                          | Some x \<Rightarrow> owned w t (xct_undo_nxt x))
      \<and> sorted_wrt (\<lambda>a b. undo_nxt_of w b \<le> undo_nxt_of w a) heap)"

definition undo_left :: "tid_t list \<Rightarrow> world \<Rightarrow> nat" where
  "undo_left heap w = sum_list (map (\<lambda>t. unat (undo_nxt_of w t)) heap)"

text \<open>Transaction 7 with two inserts, at LSN 200 and at LSN 400, and transaction 8 with its
  insert at LSN 300 between them; both are doomed.\<close>

definition rec_insert400 :: logrec_t where
  "rec_insert400 = rec_insert200\<lparr>lsn_ck := 400, xid_prev := 200\<rparr>"

definition xct7_two :: xct_t where
  "xct7_two =
     \<lparr>xct_tid = 7, xct_state = xct_active, xct_last_lsn = 400, xct_first_lsn = 200,
      xct_undo_nxt = 400, xct_is_sys = False, xct_is_single_log_sys = False,
      xct_is_doomed = True\<rparr>"

definition world_undo_rev :: world where
  "world_undo_rev =
     world0\<lparr>operating_mode := t_in_undo, swizzling_enabled := False,
            xct_tab := [xct7_two, xct8],
            the_log := [(200, rec_insert200), (300, rec_insert300_t8), (400, rec_insert400)]\<rparr>"

text \<open>
  Redo with the system open. Page 42 is in-doubt and the log holds the insert at LSN 200;
  the next insert position is 300 when Redo starts. The user transaction 12, admitted
  since, is active in the table; its first record, a store operation with no page, is at
  LSN 300.
\<close>

definition xct12 :: xct_t where
  "xct12 =
     \<lparr>xct_tid = 12, xct_state = xct_active, xct_last_lsn = 300, xct_first_lsn = 300,
      xct_undo_nxt = 300, xct_is_sys = False, xct_is_single_log_sys = False,
      xct_is_doomed = False\<rparr>"

definition rec_user300 :: logrec_t where
  "rec_user300 =
     logrec0\<lparr>rtype := t_store_operation, tid := 12, lsn_ck := 300, is_redo := True,
             is_undo := True\<rparr>"

definition world_redo_open :: world where
  "world_redo_open =
     world_redo\<lparr>operating_mode := t_forward_processing, xct_tab := [xct12], curr_lsn := 300,
               the_log := [(200, rec_insert200), (300, rec_user300)]\<rparr>"

text \<open>
  A crash in the rollback of transaction 7: after the checkpoint it has inserted into
  page 42 at LSN 800 and written the compensation record for it at LSN 850.
  \<open>xct7_clr\<close> is the entry that Analysis leaves for it.
\<close>

definition rec_clr850 :: logrec_t where
  "rec_clr850 = rec_clr400\<lparr>lsn_ck := 850, xid_prev := 800\<rparr>"

definition world_clr :: world where
  "world_clr =
     world0\<lparr>the_log := [(500, rec_chkpt_begin500), (700, rec_chkpt_end700),
                        (800, rec_insert800), (850, rec_clr850)]\<rparr>"

definition xct7_clr :: xct_t where
  "xct7_clr =
     \<lparr>xct_tid = 7, xct_state = xct_active, xct_last_lsn = 850, xct_first_lsn = lsn_null,
      xct_undo_nxt = lsn_null, xct_is_sys = False, xct_is_single_log_sys = False,
      xct_is_doomed = True\<rparr>"

section \<open>Properties of log-driven Redo\<close>

lemma redo_prepare_virgin:
  "redo_prepare d r lsn p cb = Inr (cb1, c) \<Longrightarrow> virgin_page_of r p
   \<Longrightarrow> page_lsn cb1 = lsn_null \<and> \<not> c"
  by (auto simp: redo_prepare_def redo_load_def Let_def split: if_splits load_rc.splits)

lemma lsn_not_less_nonnull:
  "\<not> (p::lsn_t) < l \<Longrightarrow> l \<noteq> lsn_null \<Longrightarrow> p \<noteq> lsn_null"
  by (auto simp: lsn_null_def word_neq_0_conv)

lemma lsn_below_less_succ: "(p::lsn_t) < e \<Longrightarrow> p < p + 1"
  by (metis (no_types, lifting) add_cancel_left_right inc_i leI nless_le
    olen_add_eqv word_less_1)

text \<open>
  C1. In \<open>_redo_log_with_pid\<close>, for a record whose page is found in the buffer pool in-doubt
  or dirty (the latch acquired, the page brought in), let the page's last-write LSN be the
  one the code reads into \<open>page_lsn\<close>. For a record with a non-null LSN: if the page LSN is
  strictly less than the record's LSN, the redo function is applied to the page and the
  page LSN becomes the record's LSN; if it is not less and is at or past the end-of-log
  LSN, the outcome is fatal; otherwise the page LSN is advanced by one and no redo is
  applied. So the redo function is applied exactly when the page LSN is below the record's.
\<close>

theorem redo_with_pid_compare:
  assumes found: "bf w (bf_key (pid_vol p) (pid_page p)) = Some cb"
      and latch: "\<not> latch_busy cb"
      and flags: "cb_in_doubt cb \<or> cb_dirty cb"
      and prep: "redo_prepare (disk w (bf_key (pid_vol p) (pid_page p))) r lsn p cb
                   = Inr (cb1, corrupted)"
      and lsn: "lsn \<noteq> lsn_null"
  shows
   "(page_lsn cb1 < lsn \<longrightarrow>
       (\<exists>w' dc' cb'. redo_log_with_pid r lsn e p dc w = Inr (w', True, dc')
           \<and> bf w' (bf_key (pid_vol p) (pid_page p)) = Some cb'
           \<and> page_lsn cb' = lsn \<and> page_redone cb' = page_redone cb1 @ [lsn]))
  \<and> (\<not> page_lsn cb1 < lsn \<and> page_lsn cb1 \<ge> e \<longrightarrow>
       redo_log_with_pid r lsn e p dc w = Inl Fatal)
  \<and> (\<not> page_lsn cb1 < lsn \<and> page_lsn cb1 < e \<longrightarrow>
       (\<exists>w' cb'. redo_log_with_pid r lsn e p dc w = Inr (w', False, dc)
           \<and> bf w' (bf_key (pid_vol p) (pid_page p)) = Some cb'
           \<and> page_lsn cb' = page_lsn cb1 + 1 \<and> page_lsn cb1 < page_lsn cb'
           \<and> page_redone cb' = page_redone cb1))"
proof (intro conjI impI)
  assume lt: "page_lsn cb1 < lsn"
  show "\<exists>w' dc' cb'. redo_log_with_pid r lsn e p dc w = Inr (w', True, dc')
           \<and> bf w' (bf_key (pid_vol p) (pid_page p)) = Some cb'
           \<and> page_lsn cb' = lsn \<and> page_redone cb' = page_redone cb1 @ [lsn]"
    using found latch flags prep lt
    by (auto simp: redo_log_with_pid_def redo_compare_def Let_def in_doubt_to_dirty_def emit_def)
next
  assume a: "\<not> page_lsn cb1 < lsn \<and> e \<le> page_lsn cb1"
  have nv: "\<not> virgin_page_of r p"
    using redo_prepare_virgin[OF prep] a lsn by (auto simp: lsn_null_def word_neq_0_conv)
  have nn: "page_lsn cb1 \<noteq> lsn_null" using a lsn lsn_not_less_nonnull by blast
  show "redo_log_with_pid r lsn e p dc w = Inl Fatal"
    using found latch flags prep a nv nn
    by (auto simp: redo_log_with_pid_def redo_compare_def Let_def)
next
  assume a: "\<not> page_lsn cb1 < lsn \<and> page_lsn cb1 < e"
  have nv: "\<not> virgin_page_of r p"
    using redo_prepare_virgin[OF prep] a lsn by (auto simp: lsn_null_def word_neq_0_conv)
  have nn: "page_lsn cb1 \<noteq> lsn_null" using a lsn lsn_not_less_nonnull by blast
  have inc: "page_lsn cb1 < page_lsn cb1 + 1" using a lsn_below_less_succ by blast
  show "\<exists>w' cb'. redo_log_with_pid r lsn e p dc w = Inr (w', False, dc)
           \<and> bf w' (bf_key (pid_vol p) (pid_page p)) = Some cb'
           \<and> page_lsn cb' = page_lsn cb1 + 1 \<and> page_lsn cb1 < page_lsn cb'
           \<and> page_redone cb' = page_redone cb1"
    using found latch flags prep a nv nn inc
    by (auto simp: redo_log_with_pid_def redo_compare_def Let_def lsn_advance_def emit_def)
qed

text \<open>The sample: page 42, last written at 150 on disk, meets the insert at LSN 200.\<close>

theorem redo_with_pid_compare_witness:
  "bf world_redo (bf_key (pid_vol pid42) (pid_page pid42)) = Some cb42
   \<and> \<not> latch_busy cb42 \<and> (cb_in_doubt cb42 \<or> cb_dirty cb42)
   \<and> redo_prepare (disk world_redo (bf_key (pid_vol pid42) (pid_page pid42)))
        rec_insert200 200 pid42 cb42 = Inr (cb42\<lparr>page_lsn := 150\<rparr>, False)
   \<and> (200 :: lsn_t) \<noteq> lsn_null
   \<and> page_lsn (cb42\<lparr>page_lsn := 150\<rparr>) < (200 :: lsn_t)
   \<and> (\<exists>w' dc' cb'. redo_log_with_pid rec_insert200 200 1000 pid42 0 world_redo
                       = Inr (w', True, dc')
         \<and> bf w' (bf_key (pid_vol pid42) (pid_page pid42)) = Some cb'
         \<and> page_lsn cb' = 200 \<and> page_redone cb' = [200])"
proof -
  have h1: "bf world_redo (bf_key (pid_vol pid42) (pid_page pid42)) = Some cb42"
    by (simp add: world_redo_def world0_def pid42_def)
  have h2: "\<not> latch_busy cb42" by (simp add: cb42_def fresh_cb_def)
  have h3: "cb_in_doubt cb42 \<or> cb_dirty cb42" by (simp add: cb42_def fresh_cb_def)
  have h4: "redo_prepare (disk world_redo (bf_key (pid_vol pid42) (pid_page pid42)))
              rec_insert200 200 pid42 cb42 = Inr (cb42\<lparr>page_lsn := 150\<rparr>, False)"
    by (simp add: redo_prepare_def redo_load_def virgin_page_of_def world_redo_def world0_def
          rec_insert200_def logrec0_def pid42_def cb42_def fresh_cb_def set_cb_pid_def Let_def)
  have h5: "(200 :: lsn_t) \<noteq> lsn_null" by (simp add: lsn_null_def)
  have h6: "page_lsn (cb42\<lparr>page_lsn := 150\<rparr>) < (200 :: lsn_t)" by simp
  from redo_with_pid_compare[OF h1 h2 h3 h4 h5, of 1000 0] h6
  have "\<exists>w' dc' cb'. redo_log_with_pid rec_insert200 200 1000 pid42 0 world_redo
                       = Inr (w', True, dc')
         \<and> bf w' (bf_key (pid_vol pid42) (pid_page pid42)) = Some cb'
         \<and> page_lsn cb' = 200 \<and> page_redone cb' = page_redone (cb42\<lparr>page_lsn := 150\<rparr>) @ [200]"
    by blast
  then have "\<exists>w' dc' cb'. redo_log_with_pid rec_insert200 200 1000 pid42 0 world_redo
                       = Inr (w', True, dc')
         \<and> bf w' (bf_key (pid_vol pid42) (pid_page pid42)) = Some cb'
         \<and> page_lsn cb' = 200 \<and> page_redone cb' = [200]"
    by (simp add: cb42_def fresh_cb_def)
  with h1 h2 h3 h4 h5 h6 show ?thesis by blast
qed

lemmas redo_eval_defs =
  world_redo_log_def log_scan_def world_redo_def world0_def cfg_serial_def cfg_concurrent_def
  redo_record_def valid_header_def rec_insert200_def rec_insert300_def logrec0_def
  null_pid_def shpid_def pid42_def redo_log_with_pid_def bf_key_def cb42_def fresh_cb_def
  redo_prepare_def redo_load_def virgin_page_of_def set_cb_pid_def redo_compare_def Let_def
  in_doubt_to_dirty_def lsn_null_def lsn_advance_def

text \<open>
  C8. When \<open>redo_log_pass\<close> is entered with a nonzero \<open>in_doubt_count\<close> and its scan comes
  to its end with \<open>dirty_count\<close> pages turned from in-doubt to dirty: if the two counts
  differ the pass is fatal; and whenever the pass is not fatal the counts are equal and the
  pass returns the state the scan has left.
\<close>

theorem redo_pass_count_check:
  assumes "in_doubt_count \<noteq> 0"
      and "redo_scan cfg e (log_scan redo_lsn w) 0 w = Inr (w1, dirty_count)"
  shows "(in_doubt_count \<noteq> dirty_count \<longrightarrow>
            redo_log_pass cfg redo_lsn e in_doubt_count w = Inl Fatal)
       \<and> (redo_log_pass cfg redo_lsn e in_doubt_count w \<noteq> Inl Fatal \<longrightarrow>
            in_doubt_count = dirty_count
            \<and> redo_log_pass cfg redo_lsn e in_doubt_count w = Inr w1)"
  using assms by (auto simp: redo_log_pass_def)

text \<open>The sample: Analysis counted two in-doubt pages, the scan turns one page dirty.\<close>

theorem redo_pass_count_check_witness:
  "(2 :: 32 word) \<noteq> 0
   \<and> (\<exists>w1. redo_scan cfg_serial 1000 (log_scan 200 world_redo_log) 0 world_redo_log = Inr (w1, 1))
   \<and> redo_log_pass cfg_serial 200 1000 2 world_redo_log = Inl Fatal"
proof -
  have h1: "(2 :: 32 word) \<noteq> 0" by simp
  have h2: "\<exists>w1. redo_scan cfg_serial 1000 (log_scan 200 world_redo_log) 0 world_redo_log
                  = Inr (w1, 1)"
    by (simp add: redo_eval_defs)
  then obtain w1 where
    h3: "redo_scan cfg_serial 1000 (log_scan 200 world_redo_log) 0 world_redo_log = Inr (w1, 1)"
    by blast
  from redo_pass_count_check[OF h1 h3]
  have "redo_log_pass cfg_serial 200 1000 2 world_redo_log = Inl Fatal" by simp
  with h1 h2 show ?thesis by blast
qed

text \<open>
  In concurrent (non-serial) mode the scan loop of \<open>redo_log_pass\<close> ends at the first
  record whose LSN is above \<open>end_logscan_lsn\<close>: it does to the state and to \<open>dirty_count\<close>
  exactly what it does on the records up to and including \<open>end_logscan_lsn\<close>.
\<close>

lemma redo_scan_stops_at_end:
  "\<not> use_serial_recovery cfg \<Longrightarrow>
   redo_scan cfg e recs dc w = redo_scan cfg e (takeWhile (\<lambda>(l, r). l \<le> e) recs) dc w"
  by (induction recs arbitrary: dc w) (auto split: sum.splits prod.splits)

text \<open>
  C10 fails on the code, by one record. The scan is meant to leave out what user
  transactions insert while Redo runs ("user transactions would generate new log records,
  stop forward scanning once we passed the end_logscan_lsn"), and \<open>redo_concurrent\<close> passes
  \<open>log->curr_lsn()\<close> as the stopping point. That is the position of the next insert, so the
  first record inserted after Redo has started has exactly this LSN, and the test
  \<open>lsn > end_logscan_lsn\<close> does not end the scan on it. In the run below Redo starts with
  the insert position at 300; the record that user transaction 12 inserts at 300 is
  redone by the pass (\<open>EvRedoNoPage 300\<close>).
\<close>

theorem redo_concurrent_boundary:
  "curr_lsn world_redo_open = 300
   \<and> log_fetch 300 world_redo_open = Some rec_user300
   \<and> map_sum id trace (redo_concurrent cfg_concurrent Inr 200 1 world_redo_open)
       = Inr [EvRedoNoPage 300, EvSynchTake]"
  by (simp add: redo_concurrent_def redo_log_pass_def redo_no_page_def look_up_def emit_def
        log_fetch_def world_redo_open_def xct12_def rec_user300_def tid_null_def pid_none_def
        is_page_deallocate_def is_page_allocate_def redo_eval_defs)

section \<open>Properties of Log Analysis\<close>

lemma find_upd_first:
  "(\<And>x. xct_tid (f x) = xct_tid x) \<Longrightarrow>
   find (\<lambda>x. xct_tid x = t) (upd_first t f xs) = map_option f (find (\<lambda>x. xct_tid x = t) xs)"
  by (induction xs) auto

lemma look_up_upd_xct:
  "(\<And>x. xct_tid (f x) = xct_tid x) \<Longrightarrow>
   look_up t (upd_xct t f w) = map_option f (look_up t w)"
  by (simp add: look_up_def upd_xct_def find_upd_first)

lemma look_up_cong_tab: "xct_tab w' = xct_tab w \<Longrightarrow> look_up t w' = look_up t w"
  by (simp add: look_up_def)

lemma switch_update_kind:
  "is_update_kind (rtype r) \<Longrightarrow>
   analysis_switch master lsn r xd st = analysis_update lsn r xd st"
  by (cases "rtype r") (simp_all add: is_update_kind_def analysis_switch_def)

lemma update_kind_not_marker:
  "is_update_kind k \<Longrightarrow> k \<noteq> t_comment \<and> k \<noteq> t_skip \<and> k \<noteq> t_max_logrec"
  by (auto simp: is_update_kind_def)

lemma attach_update_kind:
  assumes "tid r \<noteq> tid_null" "is_update_kind (rtype r)"
  shows "\<exists>w1 x. analysis_attach lsn max_lsn r w = (w1, Some (tid r))
          \<and> look_up (tid r) w1 = Some x \<and> bf w1 = bf w \<and> bf_free w1 = bf_free w"
  using assms(1) update_kind_not_marker[OF assms(2)]
  by (auto simp: analysis_attach_def find_upd_first new_xct_def
        update_youngest_tid_def upd_xct_def look_up_def split: option.splits)

lemma mark_page_frame:
  "analysis_mark_page p l st = Inr st' \<Longrightarrow>
     xct_tab (a_world st') = xct_tab (a_world st)
   \<and> (\<exists>cb. bf (a_world st') (bf_key (pid_vol p) (pid_page p)) = Some cb \<and> cb_in_doubt cb)"
  by (auto simp: analysis_mark_page_def register_and_mark_def Let_def fresh_cb_def
      split: if_splits option.splits)

lemma mark_page_ok:
  "pid_page p \<noteq> 0 \<Longrightarrow>
   bf_free (a_world st) \<noteq> 0 \<or> bf (a_world st) (bf_key (pid_vol p) (pid_page p)) \<noteq> None \<Longrightarrow>
   \<exists>st'. analysis_mark_page p l st = Inr st'"
  by (auto simp: analysis_mark_page_def register_and_mark_def Let_def split: option.splits)

lemma first_lsn_bf: "bf (a_world (analysis_first_lsn lsn r s)) = bf (a_world s)"
  by (simp add: analysis_first_lsn_def upd_xct_def split: option.splits)

lemma first_lsn_look_up:
  "look_up (tid r) (a_world s) = Some y \<Longrightarrow>
   \<exists>z. look_up (tid r) (a_world (analysis_first_lsn lsn r s)) = Some z
        \<and> xct_undo_nxt z = xct_undo_nxt y"
  by (auto simp: analysis_first_lsn_def look_up_upd_xct)

text \<open>
  C7. In the scan loop of \<open>analysis_pass\<close>, take a compensation record of a transaction (a
  tid, one of the record types of the update case, not a single-log system transaction)
  whose LSN passes the check. If the record is undoable the outcome is fatal. If it is not,
  then whenever the record is handled without a fatal error the owning transaction's
  \<open>undo_nxt\<close> is null afterwards and, if the record is redoable, its page is registered
  in-doubt; and it is handled without a fatal error whenever it is not redoable, or its
  page number is not 0 and the buffer pool has the page or a free block.
\<close>

theorem analysis_compensation:
  assumes ck: "lsn = lsn_ck r" and nssx: "\<not> is_single_sys_xct r" and cpsn: "is_cpsn r"
      and kind: "is_update_kind (rtype r)" and tidr: "tid r \<noteq> tid_null"
  shows "(is_undo r \<longrightarrow> analysis_record master max_lsn lsn r st = Inl Fatal)
       \<and> (\<not> is_undo r \<longrightarrow>
            (\<forall>st'. analysis_record master max_lsn lsn r st = Inr st' \<longrightarrow>
               (\<exists>x. look_up (tid r) (a_world st') = Some x \<and> xct_undo_nxt x = lsn_null)
               \<and> (is_redo r \<longrightarrow>
                    (\<exists>cb. bf (a_world st') (bf_key (pid_vol (pid r)) (pid_page (pid r))) = Some cb
                          \<and> cb_in_doubt cb))))
       \<and> (\<not> is_undo r
            \<and> (is_redo r \<longrightarrow> pid_page (pid r) \<noteq> 0
                  \<and> (bf_free (a_world st) \<noteq> 0
                      \<or> bf (a_world st) (bf_key (pid_vol (pid r)) (pid_page (pid r))) \<noteq> None))
            \<longrightarrow> (\<exists>st'. analysis_record master max_lsn lsn r st = Inr st'))"
proof -
  obtain w1 x where att: "analysis_attach lsn max_lsn r (a_world st) = (w1, Some (tid r))"
    and lk: "look_up (tid r) w1 = Some x" and bfeq: "bf w1 = bf (a_world st)"
    and freeeq: "bf_free w1 = bf_free (a_world st)"
    using attach_update_kind[OF tidr kind] by blast
  define st1 where "st1 = st\<lparr>a_last_lsn := lsn, a_world := w1\<rparr>"
  have rec: "analysis_record master max_lsn lsn r st = analysis_update lsn r (Some (tid r)) st1"
    using ck nssx att
    by (simp add: analysis_record_def Let_def switch_update_kind[OF kind] st1_def)
  have npu: "\<not> is_page_update r" using cpsn by (simp add: is_page_update_def)
  define st2 where
    "st2 = st1\<lparr>a_world := upd_xct (tid r) (\<lambda>x. x\<lparr>xct_undo_nxt := lsn_null\<rparr>) (a_world st1)\<rparr>"
  have lk2: "look_up (tid r) (a_world st2) = Some (x\<lparr>xct_undo_nxt := lsn_null\<rparr>)"
    using lk by (simp add: st2_def st1_def look_up_upd_xct)
  have upd_undo: "is_undo r \<Longrightarrow> analysis_update lsn r (Some (tid r)) st1 = Inl Fatal"
    using npu cpsn by (simp add: analysis_update_def)
  have upd_noredo: "\<not> is_undo r \<Longrightarrow> \<not> is_redo r \<Longrightarrow>
      analysis_update lsn r (Some (tid r)) st1 = Inr (analysis_first_lsn lsn r st2)"
    using npu cpsn by (simp add: analysis_update_def Let_def st2_def)
  have upd_redo: "\<not> is_undo r \<Longrightarrow> is_redo r \<Longrightarrow>
      analysis_update lsn r (Some (tid r)) st1 =
        (case analysis_mark_page (pid r) lsn st2 of Inl e \<Rightarrow> Inl e
         | Inr st3 \<Rightarrow> Inr (analysis_first_lsn lsn r st3))"
    using npu cpsn by (simp add: analysis_update_def Let_def st2_def)
  show ?thesis
  proof (intro conjI impI allI)
    assume "is_undo r"
    then show "analysis_record master max_lsn lsn r st = Inl Fatal"
      by (simp add: rec upd_undo)
  next
    fix st' assume nu: "\<not> is_undo r"
      and res: "analysis_record master max_lsn lsn r st = Inr st'"
    show "\<exists>x. look_up (tid r) (a_world st') = Some x \<and> xct_undo_nxt x = lsn_null"
    proof (cases "is_redo r")
      case False
      with res nu have "st' = analysis_first_lsn lsn r st2" by (simp add: rec upd_noredo)
      with first_lsn_look_up[OF lk2, of lsn] show ?thesis by simp
    next
      case True
      with res nu obtain st3 where mp: "analysis_mark_page (pid r) lsn st2 = Inr st3"
        and st': "st' = analysis_first_lsn lsn r st3"
        by (auto simp: rec upd_redo split: sum.splits)
      from mark_page_frame[OF mp]
      have "look_up (tid r) (a_world st3) = look_up (tid r) (a_world st2)"
        using look_up_cong_tab by blast
      with lk2 have "look_up (tid r) (a_world st3) = Some (x\<lparr>xct_undo_nxt := lsn_null\<rparr>)"
        by simp
      from first_lsn_look_up[OF this, of lsn] st' show ?thesis by simp
    qed
  next
    fix st' assume nu: "\<not> is_undo r"
      and res: "analysis_record master max_lsn lsn r st = Inr st'"
      and rd: "is_redo r"
    from res nu rd obtain st3 where mp: "analysis_mark_page (pid r) lsn st2 = Inr st3"
        and st': "st' = analysis_first_lsn lsn r st3"
      by (auto simp: rec upd_redo split: sum.splits)
    from mark_page_frame[OF mp] st'
    show "\<exists>cb. bf (a_world st') (bf_key (pid_vol (pid r)) (pid_page (pid r))) = Some cb
                          \<and> cb_in_doubt cb"
      by (simp add: first_lsn_bf)
  next
    assume a: "\<not> is_undo r
            \<and> (is_redo r \<longrightarrow> pid_page (pid r) \<noteq> 0
                  \<and> (bf_free (a_world st) \<noteq> 0
                      \<or> bf (a_world st) (bf_key (pid_vol (pid r)) (pid_page (pid r))) \<noteq> None))"
    show "\<exists>st'. analysis_record master max_lsn lsn r st = Inr st'"
    proof (cases "is_redo r")
      case False
      with a show ?thesis by (simp add: rec upd_noredo)
    next
      case True
      have "bf (a_world st2) = bf (a_world st)" "bf_free (a_world st2) = bf_free (a_world st)"
        using bfeq freeeq by (simp_all add: st2_def st1_def upd_xct_def)
      with a True obtain st3 where mp: "analysis_mark_page (pid r) lsn st2 = Inr st3"
        using mark_page_ok[of "pid r" st2 lsn] by auto
      with a True show ?thesis by (simp add: rec upd_redo)
    qed
  qed
qed

text \<open>The sample: the compensation record at 400 nulls transaction 7's \<open>undo_nxt\<close> and
  registers page 42; the same record marked undoable is fatal.\<close>

theorem analysis_compensation_witness:
  "400 = lsn_ck rec_clr400 \<and> \<not> is_single_sys_xct rec_clr400 \<and> is_cpsn rec_clr400
   \<and> is_update_kind (rtype rec_clr400) \<and> tid rec_clr400 \<noteq> tid_null
   \<and> \<not> is_undo rec_clr400 \<and> is_redo rec_clr400
   \<and> (\<exists>st' x cb. analysis_record 100 1001 400 rec_clr400 astate_t7 = Inr st'
          \<and> look_up 7 (a_world st') = Some x \<and> xct_undo_nxt x = lsn_null
          \<and> bf (a_world st') (bf_key 1 42) = Some cb \<and> cb_in_doubt cb)
   \<and> analysis_record 100 1001 400 (rec_clr400\<lparr>is_undo := True\<rparr>) astate_t7 = Inl Fatal"
proof -
  have h1: "400 = lsn_ck rec_clr400" by (simp add: rec_clr400_def logrec0_def)
  have h2: "\<not> is_single_sys_xct rec_clr400" by (simp add: rec_clr400_def logrec0_def)
  have h3: "is_cpsn rec_clr400" by (simp add: rec_clr400_def logrec0_def)
  have h4: "is_update_kind (rtype rec_clr400)"
    by (simp add: rec_clr400_def logrec0_def is_update_kind_def)
  have h5: "tid rec_clr400 \<noteq> tid_null" by (simp add: rec_clr400_def logrec0_def tid_null_def)
  have h6: "\<not> is_undo rec_clr400" "is_redo rec_clr400"
    by (simp_all add: rec_clr400_def logrec0_def)
  have h7: "pid rec_clr400 = pid42" "tid rec_clr400 = 7"
    by (simp_all add: rec_clr400_def logrec0_def)
  have h8: "pid_page pid42 \<noteq> 0" "bf_free (a_world astate_t7) \<noteq> 0" "pid_vol pid42 = 1"
    "pid_page pid42 = 42"
    by (simp_all add: pid42_def astate_t7_def analysis_init_def world0_def)
  note T = analysis_compensation[OF h1 h2 h3 h4 h5, of 100 1001 astate_t7]
  from T h6 h7 h8 obtain st' where
    r: "analysis_record 100 1001 400 rec_clr400 astate_t7 = Inr st'" by auto
  from T h6 h7 h8 r
  have a: "\<exists>st' x cb. analysis_record 100 1001 400 rec_clr400 astate_t7 = Inr st'
          \<and> look_up 7 (a_world st') = Some x \<and> xct_undo_nxt x = lsn_null
          \<and> bf (a_world st') (bf_key 1 42) = Some cb \<and> cb_in_doubt cb"
    by auto
  have g1: "400 = lsn_ck (rec_clr400\<lparr>is_undo := True\<rparr>)"
    by (simp add: rec_clr400_def logrec0_def)
  have g2: "\<not> is_single_sys_xct (rec_clr400\<lparr>is_undo := True\<rparr>)"
    by (simp add: rec_clr400_def logrec0_def)
  have g3: "is_cpsn (rec_clr400\<lparr>is_undo := True\<rparr>)" by (simp add: rec_clr400_def logrec0_def)
  have g4: "is_update_kind (rtype (rec_clr400\<lparr>is_undo := True\<rparr>))"
    by (simp add: rec_clr400_def logrec0_def is_update_kind_def)
  have g5: "tid (rec_clr400\<lparr>is_undo := True\<rparr>) \<noteq> tid_null"
    by (simp add: rec_clr400_def logrec0_def tid_null_def)
  from analysis_compensation[OF g1 g2 g3 g4 g5, of 100 1001 astate_t7]
  have b: "analysis_record 100 1001 400 (rec_clr400\<lparr>is_undo := True\<rparr>) astate_t7 = Inl Fatal"
    by simp
  from h1 h2 h3 h4 h5 h6 a b show ?thesis by blast
qed

text \<open>
  C3. In the scan loop of \<open>analysis_pass\<close>, for a record whose LSN passes the check and
  that is not a single-log system transaction: once a chkpt-end record has been handled
  (\<open>num_chkpt_end_handled > 0\<close>), a chkpt-buffer-table, chkpt-transaction-table or
  chkpt-device-table record leaves the state as every record does through its header
  (\<open>last_lsn\<close>, and the transaction named by a tid; nothing at all for the null tid of a
  checkpoint record), and a chkpt-end record does no more than count itself. The first
  chkpt-end record is fatal when its \<open>begin_chkpt\<close> is not the master LSN; when it is, its
  \<open>min_rec_lsn\<close> and \<open>min_xct_lsn\<close> become \<open>redo_lsn\<close> and \<open>undo_lsn\<close> and the count is 1.
\<close>

theorem analysis_chkpt_records:
  assumes ck: "lsn = lsn_ck r" and nssx: "\<not> is_single_sys_xct r"
  shows
   "(0 < a_num_chkpt_end_handled st
       \<and> (rtype r = t_chkpt_bf_tab \<or> rtype r = t_chkpt_xct_tab \<or> rtype r = t_chkpt_dev_tab) \<longrightarrow>
       analysis_record master max_lsn lsn r st
         = Inr (st\<lparr>a_last_lsn := lsn,
                   a_world := fst (analysis_attach lsn max_lsn r (a_world st))\<rparr>))
  \<and> (0 < a_num_chkpt_end_handled st \<and> rtype r = t_chkpt_end \<longrightarrow>
       analysis_record master max_lsn lsn r st
         = Inr (st\<lparr>a_last_lsn := lsn,
                   a_world := fst (analysis_attach lsn max_lsn r (a_world st)),
                   a_num_chkpt_end_handled := a_num_chkpt_end_handled st + 1\<rparr>))
  \<and> (a_num_chkpt_end_handled st = 0 \<and> rtype r = t_chkpt_end
       \<and> fst (chkpt_end_of (data r)) \<noteq> master \<longrightarrow>
       analysis_record master max_lsn lsn r st = Inl Fatal)
  \<and> (a_num_chkpt_end_handled st = 0 \<and> rtype r = t_chkpt_end
       \<and> fst (chkpt_end_of (data r)) = master \<longrightarrow>
       analysis_record master max_lsn lsn r st
         = Inr (st\<lparr>a_last_lsn := lsn,
                   a_world := fst (analysis_attach lsn max_lsn r (a_world st)),
                   a_begin_chkpt := master,
                   a_redo_lsn := fst (snd (chkpt_end_of (data r))),
                   a_undo_lsn := snd (snd (chkpt_end_of (data r))),
                   a_num_chkpt_end_handled := 1\<rparr>))
  \<and> (tid r = tid_null \<longrightarrow> fst (analysis_attach lsn max_lsn r (a_world st)) = a_world st)"
proof -
  obtain w1 xd where att: "analysis_attach lsn max_lsn r (a_world st) = (w1, xd)"
    by (cases "analysis_attach lsn max_lsn r (a_world st)")
  have rec: "analysis_record master max_lsn lsn r st
               = analysis_switch master lsn r xd (st\<lparr>a_last_lsn := lsn, a_world := w1\<rparr>)"
    using ck nssx att by (simp add: analysis_record_def Let_def)
  have notid: "tid r = tid_null \<Longrightarrow> w1 = a_world st"
    using att by (simp add: analysis_attach_def)
  show ?thesis
    using notid
    by (auto simp: rec att analysis_switch_def analysis_chkpt_bf_tab_def
          analysis_chkpt_xct_tab_def analysis_chkpt_dev_tab_def analysis_chkpt_end_def
        split: prod.splits)
qed

text \<open>The sample: after the master checkpoint, the buffer table of a second checkpoint
  registers no page, and its end record only counts; with no end record handled yet, the
  end record of a checkpoint begun at 890 is fatal under the master 500.\<close>

theorem analysis_chkpt_records_witness:
  "900 = lsn_ck rec_bf_tab900 \<and> \<not> is_single_sys_xct rec_bf_tab900
   \<and> 0 < a_num_chkpt_end_handled astate_after_master \<and> rtype rec_bf_tab900 = t_chkpt_bf_tab
   \<and> tid rec_bf_tab900 = tid_null
   \<and> analysis_record 500 1001 900 rec_bf_tab900 astate_after_master
       = Inr (astate_after_master\<lparr>a_last_lsn := 900\<rparr>)
   \<and> 950 = lsn_ck rec_chkpt_end950 \<and> \<not> is_single_sys_xct rec_chkpt_end950
   \<and> rtype rec_chkpt_end950 = t_chkpt_end
   \<and> fst (chkpt_end_of (data rec_chkpt_end950)) \<noteq> 500
   \<and> analysis_record 500 1001 950 rec_chkpt_end950
        (astate_after_master\<lparr>a_num_chkpt_end_handled := 0\<rparr>) = Inl Fatal"
proof -
  have h1: "900 = lsn_ck rec_bf_tab900" "\<not> is_single_sys_xct rec_bf_tab900"
    by (simp_all add: rec_bf_tab900_def logrec0_def)
  have h2: "0 < a_num_chkpt_end_handled astate_after_master"
    "rtype rec_bf_tab900 = t_chkpt_bf_tab" "tid rec_bf_tab900 = tid_null"
    by (simp_all add: astate_after_master_def rec_bf_tab900_def logrec0_def)
  from analysis_chkpt_records[OF h1, of astate_after_master 500 1001] h2
  have a: "analysis_record 500 1001 900 rec_bf_tab900 astate_after_master
       = Inr (astate_after_master\<lparr>a_last_lsn := 900\<rparr>)"
    by simp
  have g1: "950 = lsn_ck rec_chkpt_end950" "\<not> is_single_sys_xct rec_chkpt_end950"
    by (simp_all add: rec_chkpt_end950_def logrec0_def)
  have g2: "rtype rec_chkpt_end950 = t_chkpt_end"
    "fst (chkpt_end_of (data rec_chkpt_end950)) \<noteq> 500"
    by (simp_all add: rec_chkpt_end950_def logrec0_def chkpt_end_of_def)
  from analysis_chkpt_records[OF g1,
         of "astate_after_master\<lparr>a_num_chkpt_end_handled := 0\<rparr>" 500 1001] g2
  have b: "analysis_record 500 1001 950 rec_chkpt_end950
        (astate_after_master\<lparr>a_num_chkpt_end_handled := 0\<rparr>) = Inl Fatal"
    by simp
  from h1 h2 a g1 g2 b show ?thesis by blast
qed

lemma sweep_result:
  "analysis_sweep cfg xs c = Inr (kept, heap, c') \<Longrightarrow>
     c' = fold min (map xct_first_lsn (filter (\<lambda>x. xct_state x = xct_active) xs)) c
   \<and> kept = map (\<lambda>x. x\<lparr>xct_first_lsn := lsn_null\<rparr>) (filter (\<lambda>x. xct_state x = xct_active) xs)"
proof (induction xs arbitrary: c kept heap c')
  case Nil
  then show ?case by simp
next
  case (Cons x xs)
  show ?case
  proof (cases "xct_state x = xct_active")
    case True
    with Cons.prems obtain k h where
      r: "analysis_sweep cfg xs (if c > xct_first_lsn x then xct_first_lsn x else c) = Inr (k, h, c')"
      and kept: "kept = x\<lparr>xct_first_lsn := lsn_null\<rparr> # k"
      by (auto split: sum.splits)
    have m: "(if c > xct_first_lsn x then xct_first_lsn x else c) = min (xct_first_lsn x) c"
      by (auto simp: min_def)
    from Cons.IH[OF r] True kept show ?thesis by (simp add: m)
  next
    case False
    with Cons.prems have r: "analysis_sweep cfg xs c = Inr (kept, heap, c')"
      by (auto split: if_splits)
    from Cons.IH[OF r] False show ?thesis by simp
  qed
qed

lemma fold_min_Min: "fold min fs (c::lsn_t) = Min (insert c (set fs))"
  using Min.set_eq_fold[of c fs] by simp

lemma fold_min_below:
  assumes "fs \<noteq> []" "\<forall>f \<in> set fs. f < (c::lsn_t)"
  shows "fold min fs c = Min (set fs) \<and> fold min fs c \<in> set fs"
proof -
  have "Min (insert c (set fs)) = min c (Min (set fs))"
    using assms(1) by (simp add: Min_insert)
  moreover have "Min (set fs) \<in> set fs" using assms(1) by (simp add: Min_in)
  moreover then have "Min (set fs) < c" using assms(2) by blast
  ultimately show ?thesis by (auto simp: fold_min_Min min_def)
qed

lemmas analysis_eval_defs =
  analysis_pass_def analysis_to_sweep_def analysis_log_scan_def log_scan_def
  analysis_record_def analysis_attach_def analysis_switch_def analysis_update_def
  analysis_first_lsn_def analysis_mark_page_def register_and_mark_def
  analysis_chkpt_end_def analysis_chkpt_xct_tab_def analysis_chkpt_bf_tab_def
  analysis_chkpt_dev_tab_def analysis_init_def set_mode_def emit_def
  look_up_def upd_xct_def new_xct_def update_youngest_tid_def
  chkpt_end_of_def xct_tab_of_def bf_tab_of_def dev_tab_of_def chkpt_begin_of_def
  is_page_update_def is_page_allocate_def is_page_deallocate_def null_pid_def shpid_def
  is_skip_def bf_key_def fresh_cb_def heapify_def undo_nxt_of_def
  lsn_null_def tid_null_def Let_def

lemmas sample_log_defs =
  world_chkpt_xct_def world_inflight_def world0_def cfg_concurrent_def cfg_serial_def
  rec_chkpt_begin500_def rec_chkpt_xct600_def rec_chkpt_end700_def xrec7_nofirst_def
  rec_insert800_def rec_insert200_def logrec0_def pid42_def

text \<open>
  C2, as the code has it. When \<open>analysis_pass\<close> is given a non-null master and completes
  without a fatal error, the \<open>commit_lsn\<close> it returns is the least of the sentinel
  \<open>max_lsn = curr_lsn + 1\<close> and the \<open>first_lsn\<close> of the doomed (active) transactions that
  the scan has left in the table, reported as null when that least value is the sentinel;
  the sweep leaves exactly those transactions, their \<open>first_lsn\<close> reset to null. When every
  doomed transaction has a \<open>first_lsn\<close> that is not null and below the sentinel,
  \<open>commit_lsn\<close> is the minimum of their \<open>first_lsn\<close>, and it is null exactly when there is
  no doomed transaction.
\<close>

theorem analysis_commit_lsn:
  assumes m: "master \<noteq> lsn_null" and r: "analysis_pass cfg master c0 w = Some (Inr res)"
  shows "\<exists>st. analysis_to_sweep master (set_mode t_in_analysis w) = Some (Inr st)
     \<and> r_commit_lsn res =
          (if fold min (map xct_first_lsn (doomed_of (a_world st))) (curr_lsn w + 1) = curr_lsn w + 1
           then lsn_null
           else fold min (map xct_first_lsn (doomed_of (a_world st))) (curr_lsn w + 1))
     \<and> xct_tab (r_world res) = map (\<lambda>x. x\<lparr>xct_first_lsn := lsn_null\<rparr>) (doomed_of (a_world st))
     \<and> ((\<forall>x \<in> set (doomed_of (a_world st)).
             xct_first_lsn x \<noteq> lsn_null \<and> xct_first_lsn x < curr_lsn w + 1) \<longrightarrow>
          (r_commit_lsn res = lsn_null \<longleftrightarrow> doomed_of (a_world st) = [])
          \<and> (doomed_of (a_world st) \<noteq> [] \<longrightarrow>
               r_commit_lsn res = Min (set (map xct_first_lsn (doomed_of (a_world st))))))"
proof -
  have cl: "curr_lsn (set_mode t_in_analysis w) = curr_lsn w"
    by (simp add: set_mode_def emit_def)
  from m r obtain st kept heap c where
    ts: "analysis_to_sweep master (set_mode t_in_analysis w) = Some (Inr st)"
    and sw: "analysis_sweep cfg (xct_tab (a_world st)) (curr_lsn w + 1) = Inr (kept, heap, c)"
    and rc: "r_commit_lsn res = (if c = curr_lsn w + 1 then lsn_null else c)"
    and rw: "xct_tab (r_world res) = kept"
    by (auto simp: analysis_pass_def Let_def cl split: option.splits sum.splits if_splits)
  note S = sweep_result[OF sw]
  let ?fs = "map xct_first_lsn (doomed_of (a_world st))"
  have c: "c = fold min ?fs (curr_lsn w + 1)" using S by (simp add: doomed_of_def)
  have k: "kept = map (\<lambda>x. x\<lparr>xct_first_lsn := lsn_null\<rparr>) (doomed_of (a_world st))"
    using S by (simp add: doomed_of_def)
  have iff: "(r_commit_lsn res = lsn_null \<longleftrightarrow> doomed_of (a_world st) = [])
          \<and> (doomed_of (a_world st) \<noteq> [] \<longrightarrow> r_commit_lsn res = Min (set ?fs))"
    if a: "\<forall>x \<in> set (doomed_of (a_world st)).
             xct_first_lsn x \<noteq> lsn_null \<and> xct_first_lsn x < curr_lsn w + 1"
  proof (cases "doomed_of (a_world st) = []")
    case True
    then show ?thesis by (simp add: rc c)
  next
    case False
    then have ne: "?fs \<noteq> []" by simp
    have lt: "\<forall>f \<in> set ?fs. f < curr_lsn w + 1" using a by auto
    have e: "c = Min (set ?fs)" and i: "c \<in> set ?fs"
      using fold_min_below[OF ne lt] c by blast+
    from i a have "c \<noteq> lsn_null" "c < curr_lsn w + 1" by auto
    with False e show ?thesis by (simp add: rc)
  qed
  from ts rc rw c k iff show ?thesis by blast
qed


text \<open>The sample: transaction 7 is in flight with its first record at 800.\<close>

theorem analysis_commit_lsn_witness:
  "(500 :: lsn_t) \<noteq> lsn_null
   \<and> (\<exists>res st. analysis_pass cfg_concurrent 500 lsn_null world_inflight = Some (Inr res)
         \<and> r_commit_lsn res = 800
         \<and> analysis_to_sweep 500 (set_mode t_in_analysis world_inflight) = Some (Inr st)
         \<and> xct_tab (r_world res)
              = map (\<lambda>x. x\<lparr>xct_first_lsn := lsn_null\<rparr>) (doomed_of (a_world st)))"
proof -
  have h1: "(500 :: lsn_t) \<noteq> lsn_null" by (simp add: lsn_null_def)
  have "\<exists>res. analysis_pass cfg_concurrent 500 lsn_null world_inflight = Some (Inr res)
               \<and> r_commit_lsn res = 800"
    by (simp add: analysis_eval_defs redo_mounts.simps sample_log_defs)
  then obtain res where
    h2: "analysis_pass cfg_concurrent 500 lsn_null world_inflight = Some (Inr res)"
    and h3: "r_commit_lsn res = 800"
    by blast
  from analysis_commit_lsn[OF h1 h2] obtain st where
    "analysis_to_sweep 500 (set_mode t_in_analysis world_inflight) = Some (Inr st)"
    "xct_tab (r_world res) = map (\<lambda>x. x\<lparr>xct_first_lsn := lsn_null\<rparr>) (doomed_of (a_world st))"
    by blast
  with h1 h2 h3 show ?thesis by blast
qed

text \<open>
  C2 as stated fails: with the checkpoint's transaction table listing the active
  transaction 7 under a null \<open>first_lsn\<close>, Analysis completes, leaves transaction 7 doomed
  in the table, and returns a null \<open>commit_lsn\<close>.
\<close>

theorem analysis_commit_lsn_counterexample:
  "commit_lsn_of (analysis_pass cfg_concurrent 500 lsn_null world_chkpt_xct) = Some lsn_null
   \<and> doomed_tids_of (analysis_pass cfg_concurrent 500 lsn_null world_chkpt_xct) = [7]"
  by (simp add: commit_lsn_of_def doomed_tids_of_def doomed_of_def analysis_eval_defs
        sample_log_defs)

section \<open>Properties of the coordinator\<close>

lemma swz_prims [simp]:
  "swizzling_enabled (emit e w) = swizzling_enabled w"
  "swizzling_enabled (upd_xct t f w) = swizzling_enabled w"
  "swizzling_enabled (new_xct t s l u a b c w) = swizzling_enabled w"
  "swizzling_enabled (update_youngest_tid t w) = swizzling_enabled w"
  "swizzling_enabled (clear_in_doubt k b w) = swizzling_enabled w"
  "swizzling_enabled (destroy_xct t w) = swizzling_enabled w"
  "swizzling_enabled (set_mode m w) = swizzling_enabled w"
  by (simp_all add: emit_def upd_xct_def new_xct_def update_youngest_tid_def
        clear_in_doubt_def destroy_xct_def set_mode_def split: option.splits)

lemma swz_register:
  "register_and_mark p l c w = Some (w', c') \<Longrightarrow> swizzling_enabled w' = swizzling_enabled w"
  by (auto simp: register_and_mark_def Let_def split: option.splits if_splits)

lemma swz_mark_page:
  "analysis_mark_page p l st = Inr st' \<Longrightarrow>
   swizzling_enabled (a_world st') = swizzling_enabled (a_world st)"
  by (auto simp: analysis_mark_page_def split: if_splits option.splits dest: swz_register)

lemma swz_clear_page:
  "swizzling_enabled (a_world (analysis_clear_page r st)) = swizzling_enabled (a_world st)"
  by (simp add: analysis_clear_page_def Let_def split: option.splits)

lemma swz_first_lsn:
  "swizzling_enabled (a_world (analysis_first_lsn l r st)) = swizzling_enabled (a_world st)"
  by (simp add: analysis_first_lsn_def split: option.splits)

lemma swz_ssx:
  "analysis_ssx l r st = Inr st' \<Longrightarrow>
   swizzling_enabled (a_world st') = swizzling_enabled (a_world st)"
  by (auto simp: analysis_ssx_def Let_def swz_clear_page
      split: if_splits sum.splits dest!: swz_mark_page)

lemma swz_attach:
  "analysis_attach l m r w = (w1, xd) \<Longrightarrow> swizzling_enabled w1 = swizzling_enabled w"
  by (auto simp: analysis_attach_def split: if_splits option.splits)

lemma swz_bf_entries:
  "chkpt_bf_entries es st = Inr st' \<Longrightarrow>
   swizzling_enabled (a_world st') = swizzling_enabled (a_world st)"
  by (induction es arbitrary: st) (auto split: sum.splits dest!: swz_mark_page)

lemma swz_xct_entries:
  "swizzling_enabled (chkpt_xct_entries es w) = swizzling_enabled w"
  by (induction es arbitrary: w) (auto split: option.splits)

lemma swz_dev_entries:
  "swizzling_enabled (chkpt_dev_entries es w) = swizzling_enabled w"
  by (induction es w rule: chkpt_dev_entries.induct) simp_all

lemma swz_end_xct:
  "analysis_end_xct b xd w = Inr w' \<Longrightarrow> swizzling_enabled w' = swizzling_enabled w"
  by (auto simp: analysis_end_xct_def Let_def split: option.splits if_splits)

lemma swz_end_group:
  "analysis_end_group ts w = Inr w' \<Longrightarrow> swizzling_enabled w' = swizzling_enabled w"
  by (induction ts arbitrary: w) (auto split: option.splits sum.splits dest!: swz_end_xct)

lemma swz_update:
  "analysis_update l r xd st = Inr st' \<Longrightarrow>
   swizzling_enabled (a_world st') = swizzling_enabled (a_world st)"
  by (auto simp: analysis_update_def Let_def swz_clear_page swz_first_lsn
      split: if_splits sum.splits option.splits dest!: swz_mark_page)

lemma swz_switch:
  "analysis_switch m l r xd st = Inr st' \<Longrightarrow>
   swizzling_enabled (a_world st') = swizzling_enabled (a_world st)"
  by (cases "rtype r")
     (auto simp: analysis_switch_def analysis_chkpt_bf_tab_def analysis_chkpt_xct_tab_def
        analysis_chkpt_dev_tab_def analysis_chkpt_end_def analysis_mount_def lift_world_def
        swz_xct_entries swz_dev_entries
      split: if_splits sum.splits prod.splits
      dest: swz_bf_entries swz_end_xct swz_end_group swz_update)

lemma swz_record:
  "analysis_record m mx l r st = Inr st' \<Longrightarrow>
   swizzling_enabled (a_world st') = swizzling_enabled (a_world st)"
  by (auto simp: analysis_record_def Let_def split: if_splits prod.splits
      dest!: swz_ssx swz_attach swz_switch)

lemma swz_scan:
  "analysis_scan m mx recs st = Inr st' \<Longrightarrow>
   swizzling_enabled (a_world st') = swizzling_enabled (a_world st)"
  by (induction recs arbitrary: st) (auto split: sum.splits dest!: swz_record)

lemma swz_log_scan:
  "analysis_log_scan m w = Inr (st, lm) \<Longrightarrow> swizzling_enabled (a_world st) = swizzling_enabled w"
  by (auto simp: analysis_log_scan_def analysis_init_def
      split: list.splits prod.splits if_splits sum.splits dest!: swz_scan)

lemma swz_mounts_aux:
  assumes "redo_mounts lm rl mnt w = Some y"
  shows "\<forall>lm' mnt' w'. y = Inr (lm', mnt', w') \<longrightarrow> swizzling_enabled w' = swizzling_enabled w"
proof (rule redo_mounts.raw_induct[where
         P = "\<lambda>lm rl mnt w y. \<forall>lm' mnt' w'. y = Inr (lm', mnt', w') \<longrightarrow>
                 swizzling_enabled w' = swizzling_enabled w", OF _ assms])
  fix f last_mount redo_lsn mnt w y
  assume IH: "\<And>a b c d y. f a b c d = Some y \<Longrightarrow>
              \<forall>lm' mnt' w'. y = Inr (lm', mnt', w') \<longrightarrow> swizzling_enabled w' = swizzling_enabled d"
    and body: "(if last_mount \<noteq> lsn_null \<and> redo_lsn < last_mount
      then case log_fetch last_mount w of None \<Rightarrow> Some (Inl Fatal)
           | Some r \<Rightarrow>
               if rtype r = t_dismount_vol
               then f (xid_prev r) redo_lsn True
                     (emit (EvMount (fst (dev0_of (data r))) (snd (dev0_of (data r)))) w)
               else f (xid_prev r) redo_lsn mnt
                     (emit (EvDismount (snd (dev0_of (data r)))) w)
      else Some (Inr (last_mount, mnt, w))) = Some y"
  show "\<forall>lm' mnt' w'. y = Inr (lm', mnt', w') \<longrightarrow> swizzling_enabled w' = swizzling_enabled w"
  proof (cases "last_mount \<noteq> lsn_null \<and> redo_lsn < last_mount")
    case False
    with body show ?thesis by auto
  next
    case True
    show ?thesis
    proof (cases "log_fetch last_mount w")
      case None
      with True body show ?thesis by auto
    next
      case (Some r)
      show ?thesis
      proof (cases "rtype r = t_dismount_vol")
        case T: True
        with True Some body IH[of "xid_prev r" redo_lsn True
          "emit (EvMount (fst (dev0_of (data r))) (snd (dev0_of (data r)))) w" y]
        show ?thesis by simp
      next
        case F: False
        with True Some body
          IH[of "xid_prev r" redo_lsn mnt "emit (EvDismount (snd (dev0_of (data r)))) w" y]
        show ?thesis by simp
      qed
    qed
  qed
qed

lemma swz_mounts:
  "redo_mounts lm rl mnt w = Some (Inr (lm', mnt', w')) \<Longrightarrow>
   swizzling_enabled w' = swizzling_enabled w"
  using swz_mounts_aux[of lm rl mnt w "Inr (lm', mnt', w')"] by blast

lemma swz_to_sweep:
  assumes "analysis_to_sweep m w = Some (Inr st)"
  shows "swizzling_enabled (a_world st) = swizzling_enabled w"
proof (cases "analysis_log_scan m w")
  case (Inl e)
  with assms show ?thesis by (simp add: analysis_to_sweep_def)
next
  case (Inr p)
  obtain st0 lm where p: "p = (st0, lm)" by (cases p)
  from swz_log_scan[of m w st0 lm] Inr p
  have s0: "swizzling_enabled (a_world st0) = swizzling_enabled w" by simp
  show ?thesis
  proof (cases "0 \<noteq> a_in_doubt_count st0")
    case False
    with assms Inr p s0 show ?thesis by (auto simp: analysis_to_sweep_def)
  next
    case True
    with assms Inr p obtain lm' mnt' w' where
      rm: "redo_mounts lm (a_redo_lsn st0) (a_mount st0) (a_world st0) = Some (Inr (lm', mnt', w'))"
      and st: "st = st0\<lparr>a_world := emit (EvSetLastMountLSN lm') w', a_mount := mnt'\<rparr>"
      by (auto simp: analysis_to_sweep_def split: option.splits sum.splits)
    from swz_mounts[OF rm] s0 st show ?thesis by simp
  qed
qed

lemma swz_analysis:
  assumes "analysis_pass cfg m c w = Some (Inr res)"
  shows "swizzling_enabled (r_world res) = swizzling_enabled w"
proof (cases "m = lsn_null")
  case True
  with assms show ?thesis by (auto simp: analysis_pass_def Let_def)
next
  case False
  with assms obtain st kept heap c' where
    ts: "analysis_to_sweep m (set_mode t_in_analysis w) = Some (Inr st)"
    and rw: "r_world res = (a_world st)\<lparr>xct_tab := kept\<rparr>"
    by (auto simp: analysis_pass_def Let_def split: option.splits sum.splits if_splits)
  from swz_to_sweep[OF ts] rw show ?thesis by simp
qed

lemmas recover_eval_defs =
  recover_def set_swizzling_enabled_def num_active_xcts_def

text \<open>
  C9. When \<open>recover\<close> returns in concurrent (non-serial) mode, pointer swizzling is
  disabled in the state it returns, whatever it was before: it is turned off before
  Analysis, Analysis runs in that state, and the state returned is the one Analysis has
  left, after the checkpoint, with no call that turns swizzling on again.
\<close>

theorem recover_concurrent_swizzling:
  assumes ns: "\<not> use_serial_recovery cfg" and r: "recover cfg master w = Some (Inr (w', outs))"
  shows "\<not> swizzling_enabled w'
       \<and> (\<exists>res. analysis_pass cfg master lsn_null
                   (if swizzling_enabled w then set_swizzling_enabled False w else w)
                 = Some (Inr res)
               \<and> w' = emit EvSynchTake (r_world res))"
proof -
  let ?w1 = "if swizzling_enabled w then set_swizzling_enabled False w else w"
  have off: "\<not> swizzling_enabled ?w1" by (simp add: set_swizzling_enabled_def)
  have mode: "operating_mode w = t_not_started"
    using r by (cases "operating_mode w = t_not_started") (simp_all add: recover_def)
  show ?thesis
  proof (cases "analysis_pass cfg master lsn_null ?w1")
    case None
    with r mode show ?thesis by (simp add: recover_def Let_def)
  next
    case (Some m)
    show ?thesis
    proof (cases m)
      case (Inl e)
      with Some r mode show ?thesis by (simp add: recover_def Let_def)
    next
      case (Inr res)
      with Some r mode ns have w': "w' = emit EvSynchTake (r_world res)"
        by (simp add: recover_def Let_def)
      from Some Inr have a: "analysis_pass cfg master lsn_null ?w1 = Some (Inr res)" by simp
      from swz_analysis[OF a] off w' a show ?thesis by simp
    qed
  qed
qed


text \<open>The sample: swizzling is enabled before recovery of the log with transaction 7 in
  flight.\<close>

theorem recover_concurrent_swizzling_witness:
  "\<not> use_serial_recovery cfg_concurrent \<and> swizzling_enabled world_inflight
   \<and> (\<exists>w' outs. recover cfg_concurrent 500 world_inflight = Some (Inr (w', outs))
         \<and> \<not> swizzling_enabled w')"
proof -
  have h1: "\<not> use_serial_recovery cfg_concurrent" by (simp add: cfg_concurrent_def)
  have h0: "swizzling_enabled world_inflight" by (simp add: world_inflight_def world0_def)
  have "\<exists>w' outs. recover cfg_concurrent 500 world_inflight = Some (Inr (w', outs))"
    by (simp add: recover_eval_defs analysis_eval_defs redo_mounts.simps sample_log_defs)
  then obtain w' outs where
    h2: "recover cfg_concurrent 500 world_inflight = Some (Inr (w', outs))" by blast
  from recover_concurrent_swizzling[OF h1 h2] have "\<not> swizzling_enabled w'" by blast
  with h0 h1 h2 show ?thesis by blast
qed

lemmas undo_eval_defs =
  undo_reverse_pass_def undo_reverse_loop.simps abort_xct_def rollback_def
  rollback_loop.simps destroy_xct_def log_fetch_def doomed_active_def
  recover_redo_def recover_undo_def redo_log_pass_def redo_no_page_def
  analysis_end_xct_def lift_world_def

text \<open>
  C5, as the code has it. When \<open>recover\<close> returns under the serial policy, it has run
  Analysis (with swizzling off) and taken the checkpoint after it, and then in this order:
  set the operating mode to in-redo; if \<open>in_doubt_count\<close> is not zero, run log-driven Redo
  and flush the buffer pool; set the operating mode to in-undo; if the transaction table
  is not empty, run reverse Undo and take a synchronous checkpoint; set swizzling on again
  if it was on before recovery.
\<close>

theorem recover_serial_sequence:
  assumes serial: "use_serial_recovery cfg"
      and r: "recover cfg master w = Some (Inr (w', outs))"
  shows "\<exists>res w2 w3 w4.
      analysis_pass cfg master lsn_null
        (if swizzling_enabled w then set_swizzling_enabled False w else w) = Some (Inr res)
    \<and> w2 = set_mode t_in_redo (emit EvSynchTake (r_world res))
    \<and> (if 0 \<noteq> r_in_doubt_count res
        then \<exists>wr. redo_log_pass cfg (r_redo_lsn res) (curr_lsn w2) (r_in_doubt_count res) w2
                     = Inr wr
                  \<and> w3 = emit EvForceAll wr
        else w3 = w2)
    \<and> (if 0 \<noteq> num_active_xcts (r_world res)
        then \<exists>wu. undo_reverse_pass cfg (r_heap res) (set_mode t_in_undo w3) = Some (Inr wu)
                  \<and> w4 = emit EvSynchTake wu
        else w4 = set_mode t_in_undo w3)
    \<and> w' = (if swizzling_enabled w then set_swizzling_enabled True w4 else w4)"
proof -
  let ?w1 = "if swizzling_enabled w then set_swizzling_enabled False w else w"
  have mode: "operating_mode w = t_not_started"
    using r by (cases "operating_mode w = t_not_started") (simp_all add: recover_def)
  obtain res where a: "analysis_pass cfg master lsn_null ?w1 = Some (Inr res)"
  proof (cases "analysis_pass cfg master lsn_null ?w1")
    case None
    with r mode show ?thesis by (simp add: recover_def Let_def)
  next
    case (Some m)
    with r mode that show ?thesis by (cases m) (simp_all add: recover_def Let_def)
  qed
  define w2 where "w2 = set_mode t_in_redo (emit EvSynchTake (r_world res))"
  from r mode a serial have r2:
    "(case recover_redo cfg res w2 of
        Inl e \<Rightarrow> Some (Inl e)
      | Inr w3 \<Rightarrow>
          (case recover_undo cfg res (num_active_xcts (r_world res)) (set_mode t_in_undo w3) of
             None \<Rightarrow> None
           | Some (Inl e) \<Rightarrow> Some (Inl e)
           | Some (Inr w4) \<Rightarrow>
               Some (Inr ((if swizzling_enabled w then set_swizzling_enabled True w4 else w4),
                          (r_commit_lsn res, r_redo_lsn res, r_last_lsn res,
                           r_in_doubt_count res))))) = Some (Inr (w', outs))"
    by (simp add: recover_def Let_def w2_def)
  then obtain w3 where rr: "recover_redo cfg res w2 = Inr w3"
    by (cases "recover_redo cfg res w2") simp_all
  with r2 obtain w4 where
    ru: "recover_undo cfg res (num_active_xcts (r_world res)) (set_mode t_in_undo w3)
           = Some (Inr w4)"
    and w': "w' = (if swizzling_enabled w then set_swizzling_enabled True w4 else w4)"
    by (auto split: option.splits sum.splits)
  have p3: "if 0 \<noteq> r_in_doubt_count res
        then \<exists>wr. redo_log_pass cfg (r_redo_lsn res) (curr_lsn w2) (r_in_doubt_count res) w2
                     = Inr wr
                  \<and> w3 = emit EvForceAll wr
        else w3 = w2"
    using rr by (auto simp: recover_redo_def split: if_splits sum.splits)
  have p4: "if 0 \<noteq> num_active_xcts (r_world res)
        then \<exists>wu. undo_reverse_pass cfg (r_heap res) (set_mode t_in_undo w3) = Some (Inr wu)
                  \<and> w4 = emit EvSynchTake wu
        else w4 = set_mode t_in_undo w3"
    using ru by (auto simp: recover_undo_def split: if_splits option.splits sum.splits)
  from a w2_def p3 p4 w' show ?thesis by blast
qed


text \<open>The sample: transaction 7 is in flight, page 42 in doubt; Redo and Undo both run and
  swizzling is on again at the end.\<close>

theorem recover_serial_sequence_witness:
  "use_serial_recovery cfg_serial
   \<and> (\<exists>w' outs. recover cfg_serial 500 world_inflight_disk = Some (Inr (w', outs))
         \<and> swizzling_enabled w')"
proof -
  have h1: "use_serial_recovery cfg_serial" by (simp add: cfg_serial_def)
  have "\<exists>w' outs. recover cfg_serial 500 world_inflight_disk = Some (Inr (w', outs))"
    by (simp add: recover_eval_defs undo_eval_defs redo_eval_defs analysis_eval_defs
          redo_mounts.simps sample_log_defs world_inflight_disk_def)
  then obtain w' outs where
    h2: "recover cfg_serial 500 world_inflight_disk = Some (Inr (w', outs))" by blast
  have h3: "swizzling_enabled world_inflight_disk"
    by (simp add: world_inflight_disk_def world_inflight_def world0_def)
  from recover_serial_sequence[OF h1 h2] obtain w4 where
    "w' = (if swizzling_enabled world_inflight_disk then set_swizzling_enabled True w4 else w4)"
    by blast
  with h3 have "swizzling_enabled w'" by (simp add: set_swizzling_enabled_def)
  with h1 h2 show ?thesis by blast
qed

text \<open>
  C5 as stated fails: when transaction 7 has committed before the crash, Analysis leaves
  page 42 in doubt and no transaction. Serial recovery then runs Redo and flushes the
  buffer pool, sets the mode to in-undo, and goes on to restore swizzling: reverse Undo is
  not run and no checkpoint is taken after the one that follows Analysis.
\<close>

theorem recover_serial_sequence_counterexample:
  "trace_of (recover cfg_serial 500 world_committed)
     = Some [EvSetSwizzling False, EvSetMode t_in_analysis, EvSetLastMountLSN 0, EvSynchTake,
             EvSetMode t_in_redo, EvForceAll, EvSetMode t_in_undo, EvSetSwizzling True]"
  by (simp add: trace_of_def recover_eval_defs undo_eval_defs redo_eval_defs analysis_eval_defs
        redo_mounts.simps sample_log_defs world_committed_def rec_xct_end850_def)

section \<open>Properties of the Undo passes\<close>

lemma rollback_loop_aux:
  assumes "rollback_loop t sp nxt w = Some y"
  shows "\<forall>nxt' w'. y = Inr (nxt', w') \<longrightarrow>
           nxt' \<le> sp \<and> nxt' \<le> nxt \<and> xct_tab w' = xct_tab w \<and> the_log w' = the_log w
           \<and> g_commit_lsn w' = g_commit_lsn w \<and> (\<exists>es. trace w' = trace w @ es)"
proof (rule rollback_loop.raw_induct[where
         P = "\<lambda>t sp nxt w y. \<forall>nxt' w'. y = Inr (nxt', w') \<longrightarrow>
           nxt' \<le> sp \<and> nxt' \<le> nxt \<and> xct_tab w' = xct_tab w \<and> the_log w' = the_log w
           \<and> g_commit_lsn w' = g_commit_lsn w \<and> (\<exists>es. trace w' = trace w @ es)", OF _ assms])
  fix f t sp nxt w y
  assume IH: "\<And>a b c d y. f a b c d = Some y \<Longrightarrow>
              \<forall>nxt' w'. y = Inr (nxt', w') \<longrightarrow>
           nxt' \<le> b \<and> nxt' \<le> c \<and> xct_tab w' = xct_tab d \<and> the_log w' = the_log d
           \<and> g_commit_lsn w' = g_commit_lsn d \<and> (\<exists>es. trace w' = trace d @ es)"
    and body: "(if sp < nxt
      then case log_fetch nxt w of None \<Rightarrow> Some (Inl Fatal)
           | Some r \<Rightarrow>
               f t sp (xid_prev r) (if is_undo r then emit (EvUndo t nxt) w else w)
      else Some (Inr (nxt, w))) = Some y"
  show "\<forall>nxt' w'. y = Inr (nxt', w') \<longrightarrow>
           nxt' \<le> sp \<and> nxt' \<le> nxt \<and> xct_tab w' = xct_tab w \<and> the_log w' = the_log w
           \<and> g_commit_lsn w' = g_commit_lsn w \<and> (\<exists>es. trace w' = trace w @ es)"
  proof (cases "sp < nxt")
    case False
    with body show ?thesis by auto
  next
    case True
    show ?thesis
    proof (cases "log_fetch nxt w")
      case None
      with True body show ?thesis by auto
    next
      case (Some r)
      with True body have
        "f t sp (xid_prev r) (if is_undo r then emit (EvUndo t nxt) w else w) = Some y" by simp
      from IH[OF this] True show ?thesis
        by (auto simp: emit_def split: if_splits)
    qed
  qed
qed


lemma rollback_loop_props:
  "rollback_loop t sp nxt w = Some (Inr (nxt', w')) \<Longrightarrow>
     nxt' \<le> sp \<and> nxt' \<le> nxt \<and> xct_tab w' = xct_tab w \<and> the_log w' = the_log w
     \<and> g_commit_lsn w' = g_commit_lsn w \<and> (\<exists>es. trace w' = trace w @ es)"
  using rollback_loop_aux[of t sp nxt w "Inr (nxt', w')"] by simp

lemma abort_xct_props:
  assumes "abort_xct t w = Some (Inr w1)"
  shows "\<exists>n es. xct_tab w1 = upd_first t (\<lambda>x. x\<lparr>xct_undo_nxt := n, xct_state := xct_ended\<rparr>) (xct_tab w)
           \<and> trace w1 = trace w @ EvAbort t # es \<and> g_commit_lsn w1 = g_commit_lsn w
           \<and> the_log w1 = the_log w"
proof -
  from assms obtain x nxt w0 where lk: "look_up t w = Some x"
    and rl: "rollback_loop t lsn_null (xct_undo_nxt x) (emit (EvAbort t) w) = Some (Inr (nxt, w0))"
    and w1: "w1 = upd_xct t (\<lambda>x. x\<lparr>xct_undo_nxt := nxt, xct_state := xct_ended\<rparr>) w0"
    by (auto simp: abort_xct_def split: option.splits sum.splits)
  from rollback_loop_props[OF rl] obtain es where
    "xct_tab w0 = xct_tab w" "trace w0 = trace w @ EvAbort t # es"
    "g_commit_lsn w0 = g_commit_lsn w" "the_log w0 = the_log w"
    by (auto simp: emit_def)
  with w1 show ?thesis by (auto simp: upd_xct_def)
qed

lemma upd_first_mid:
  "t \<notin> xct_tid ` set pre \<Longrightarrow> xct_tid x = t \<Longrightarrow>
   upd_first t f (pre @ x # xs) = pre @ f x # xs"
  by (induction pre) auto

lemma del_first_mid:
  "t \<notin> xct_tid ` set pre \<Longrightarrow> xct_tid x = t \<Longrightarrow> del_first t (pre @ x # xs) = pre @ xs"
  by (induction pre) auto

lemma undo_txn_walk_table:
  "undo_txn_walk xs w = Some (Inr w') \<Longrightarrow> xct_tab w = pre @ xs \<Longrightarrow>
   distinct (map xct_tid (pre @ xs)) \<Longrightarrow>
     xct_tab w' = pre @ map (\<lambda>x. if xct_is_doomed x \<and> xct_active = xct_state x
                                      \<and> lsn_null \<noteq> xct_undo_nxt x \<and> xct_is_sys x
                                   then x\<lparr>xct_undo_nxt := lsn_null\<rparr> else x)
                        (filter (\<lambda>x. \<not> (xct_is_doomed x \<and> xct_active = xct_state x
                                         \<and> lsn_null \<noteq> xct_undo_nxt x \<and> \<not> xct_is_sys x)) xs)
   \<and> g_commit_lsn w' = g_commit_lsn w
   \<and> (\<exists>es. trace w' = trace w @ es)
   \<and> (\<forall>x \<in> set xs. xct_is_doomed x \<and> xct_active = xct_state x
                      \<and> lsn_null \<noteq> xct_undo_nxt x \<and> \<not> xct_is_sys x
          \<longrightarrow> EvAbort (xct_tid x) \<in> set (trace w'))"
proof (induction xs arbitrary: w pre)
  case Nil
  then show ?case by simp
next
  case (Cons x xs)
  let ?t = "xct_tid x"
  have notin: "?t \<notin> xct_tid ` set pre" using Cons.prems(3) by auto
  have dist': "distinct (map xct_tid ((pre @ [x]) @ xs))" using Cons.prems(3) by simp
  show ?case
  proof (cases "xct_is_doomed x \<and> xct_active = xct_state x \<and> lsn_null \<noteq> xct_undo_nxt x")
    case False
    with Cons.prems(1) have r: "undo_txn_walk xs w = Some (Inr w')"
      by (auto split: if_splits)
    have tab: "xct_tab w = (pre @ [x]) @ xs" using Cons.prems(2) by simp
    from Cons.IH[OF r tab dist'] False show ?thesis by auto
  next
    case True
    show ?thesis
    proof (cases "xct_is_sys x")
      case sys: True
      let ?w1 = "upd_xct ?t (\<lambda>x. x\<lparr>xct_undo_nxt := lsn_null\<rparr>) w"
      from Cons.prems(1) True sys have r: "undo_txn_walk xs ?w1 = Some (Inr w')" by simp
      have tab: "xct_tab ?w1 = (pre @ [x\<lparr>xct_undo_nxt := lsn_null\<rparr>]) @ xs"
        using Cons.prems(2) notin by (simp add: upd_xct_def upd_first_mid)
      have d: "distinct (map xct_tid ((pre @ [x\<lparr>xct_undo_nxt := lsn_null\<rparr>]) @ xs))"
        using Cons.prems(3) by simp
      from Cons.IH[OF r tab d] True sys show ?thesis by (auto simp: upd_xct_def)
    next
      case nsys: False
      from Cons.prems(1) True nsys obtain w1 where
        ab: "abort_xct ?t w = Some (Inr w1)"
        and r: "undo_txn_walk xs (destroy_xct ?t w1) = Some (Inr w')"
        by (auto split: option.splits sum.splits)
      from abort_xct_props[OF ab] obtain n es where
        t1: "xct_tab w1 = upd_first ?t (\<lambda>x. x\<lparr>xct_undo_nxt := n, xct_state := xct_ended\<rparr>) (xct_tab w)"
        and tr: "trace w1 = trace w @ EvAbort ?t # es"
        and cm: "g_commit_lsn w1 = g_commit_lsn w"
        by blast
      have tab: "xct_tab (destroy_xct ?t w1) = pre @ xs"
        using t1 Cons.prems(2) notin
        by (simp add: destroy_xct_def upd_first_mid del_first_mid)
      have d: "distinct (map xct_tid (pre @ xs))" using Cons.prems(3) by simp
      from Cons.IH[OF r tab d] obtain es' where
        a: "xct_tab w' = pre @ map (\<lambda>x. if xct_is_doomed x \<and> xct_active = xct_state x
                                      \<and> lsn_null \<noteq> xct_undo_nxt x \<and> xct_is_sys x
                                   then x\<lparr>xct_undo_nxt := lsn_null\<rparr> else x)
                        (filter (\<lambda>x. \<not> (xct_is_doomed x \<and> xct_active = xct_state x
                                         \<and> lsn_null \<noteq> xct_undo_nxt x \<and> \<not> xct_is_sys x)) xs)"
        and b: "g_commit_lsn w' = g_commit_lsn (destroy_xct ?t w1)"
        and c: "trace w' = trace (destroy_xct ?t w1) @ es'"
        and e: "\<forall>x \<in> set xs. xct_is_doomed x \<and> xct_active = xct_state x
                      \<and> lsn_null \<noteq> xct_undo_nxt x \<and> \<not> xct_is_sys x
          \<longrightarrow> EvAbort (xct_tid x) \<in> set (trace w')"
        by blast
      have c': "trace w' = trace w @ EvAbort ?t # es @ es'"
        using c tr by (simp add: destroy_xct_def)
      from a b c' e cm True nsys show ?thesis by (auto simp: destroy_xct_def)
    qed
  qed
qed


lemma find_map_filter:
  "distinct (map xct_tid xs) \<Longrightarrow> x \<in> set xs \<Longrightarrow> (\<And>y. xct_tid (g y) = xct_tid y) \<Longrightarrow>
   find (\<lambda>y. xct_tid y = xct_tid x) (map g (filter keep xs))
     = (if keep x then Some (g x) else None)"
proof (induction xs)
  case Nil
  then show ?case by simp
next
  case (Cons a xs)
  show ?case
  proof (cases "a = x")
    case True
    have ni: "xct_tid x \<notin> xct_tid ` set xs" using Cons.prems(1) True by simp
    have "xct_tid y \<noteq> xct_tid x" if "y \<in> set (map g (filter keep xs))" for y
    proof -
      from that obtain z where z: "z \<in> set xs" "y = g z" by auto
      then have "xct_tid y = xct_tid z" using Cons.prems(3) by simp
      with ni z(1) show ?thesis by (metis imageI)
    qed
    then have "find (\<lambda>y. xct_tid y = xct_tid x) (map g (filter keep xs)) = None"
      unfolding find_None_iff by blast
    with True Cons.prems(3) show ?thesis by simp
  next
    case False
    with Cons.prems have "x \<in> set xs" "xct_tid a \<noteq> xct_tid x" by auto
    with Cons.IH[OF _ this(1)] Cons.prems show ?thesis by simp
  qed
qed

lemmas undo_txn_eval_defs =
  undo_txn_pass_def num_active_xcts_def abort_xct_def rollback_loop.simps destroy_xct_def
  log_fetch_def look_up_def upd_xct_def emit_def lsn_null_def

text \<open>
  What a returning pass leaves of a transaction whose \<open>undo_nxt\<close> is null, on a table
  with distinct tids: the transaction itself, still in the table.
\<close>

lemma undo_txn_pass_keeps_null_undo_nxt:
  assumes ret: "undo_txn_pass w = Some (Inr w')"
      and dist: "distinct (map xct_tid (xct_tab w))"
      and x: "x \<in> set (xct_tab w)" and n: "xct_undo_nxt x = lsn_null"
  shows "look_up (xct_tid x) w' = Some x"
proof -
  let ?g = "\<lambda>x. if xct_is_doomed x \<and> xct_active = xct_state x
                     \<and> lsn_null \<noteq> xct_undo_nxt x \<and> xct_is_sys x
                  then x\<lparr>xct_undo_nxt := lsn_null\<rparr> else x"
  let ?keep = "\<lambda>x. \<not> (xct_is_doomed x \<and> xct_active = xct_state x
                         \<and> lsn_null \<noteq> xct_undo_nxt x \<and> \<not> xct_is_sys x)"
  from x have ne: "xct_tab w \<noteq> []" by auto
  with ret obtain w1 where
    wk: "undo_txn_walk (xct_tab w) (emit EvLogComment w) = Some (Inr w1)"
    and w': "w' = (emit EvFlushAll w1)\<lparr>g_commit_lsn := lsn_null\<rparr>"
    by (auto simp: undo_txn_pass_def num_active_xcts_def split: option.splits sum.splits)
  have tab0: "xct_tab (emit EvLogComment w) = [] @ xct_tab w" by (simp add: emit_def)
  have d0: "distinct (map xct_tid ([] @ xct_tab w))" using dist by simp
  from undo_txn_walk_table[OF wk tab0 d0]
  have tab: "xct_tab w1 = map ?g (filter ?keep (xct_tab w))" by auto
  have "look_up (xct_tid x) w'
          = find (\<lambda>y. xct_tid y = xct_tid x) (map ?g (filter ?keep (xct_tab w)))"
    by (simp add: look_up_def w' emit_def tab)
  also have "\<dots> = (if ?keep x then Some (?g x) else None)"
    by (rule find_map_filter[OF dist x]) simp
  also have "\<dots> = Some x" using n by simp
  finally show ?thesis .
qed

text \<open>
  C4 fails on the code, which does not do here what its own comments say. Analysis leaves
  a transaction whose last record is a compensation record doomed and active with a null
  \<open>undo_nxt\<close>, "to be cleaned up in the UNDO phase". In \<open>_undo_txn_pass\<close> the branch for a
  null \<open>undo_nxt\<close> ("nothing to undo") is empty: the transaction is not destroyed, although
  the pass goes on with "All doomed transactions have been taken care of now". In the run
  below Analysis (concurrent mode) leaves transaction 7 so; transaction-driven Undo
  returns with transaction 7 still in the table, doomed and active; the sibling
  \<open>undo_reverse_pass\<close>, in the same state, aborts it and removes it from the table.
\<close>

theorem undo_txn_pass_null_undo_nxt:
  "\<exists>res w1 w2.
      analysis_pass cfg_concurrent 500 lsn_null world_clr = Some (Inr res)
    \<and> xct_tab (r_world res) = [xct7_clr]
    \<and> undo_txn_pass (r_world res) = Some (Inr w1)
    \<and> xct_tab w1 = [xct7_clr]
    \<and> trace w1 = trace (r_world res) @ [EvLogComment, EvFlushAll]
    \<and> undo_reverse_pass (cfg_concurrent\<lparr>use_undo_reverse_recovery := True\<rparr>) [] (r_world res)
        = Some (Inr w2)
    \<and> xct_tab w2 = []
    \<and> trace w2 = trace (r_world res) @ [EvLogComment, EvAbort 7, EvFlushAll]"
  by (simp add: analysis_eval_defs redo_mounts.simps sample_log_defs world_clr_def rec_clr850_def
        rec_clr400_def xct7_clr_def undo_txn_eval_defs undo_eval_defs)

section \<open>Properties of reverse-chronological Undo\<close>

lemma rollback_props:
  assumes "rollback t sp w = Some (Inr w1)"
  shows "\<exists>x n es. look_up t w = Some x \<and> n \<le> sp \<and> n \<le> xct_undo_nxt x
           \<and> xct_tab w1 = upd_first t (\<lambda>x. x\<lparr>xct_undo_nxt := n\<rparr>) (xct_tab w)
           \<and> trace w1 = trace w @ EvRollback t sp # es \<and> the_log w1 = the_log w"
proof -
  from assms obtain x nxt w0 where lk: "look_up t w = Some x"
    and rl: "rollback_loop t sp (xct_undo_nxt x) (emit (EvRollback t sp) w) = Some (Inr (nxt, w0))"
    and w1: "w1 = upd_xct t (\<lambda>x. x\<lparr>xct_undo_nxt := nxt\<rparr>) w0"
    by (auto simp: rollback_def split: option.splits sum.splits)
  from rollback_loop_props[OF rl] obtain es where
    "nxt \<le> sp" "nxt \<le> xct_undo_nxt x"
    "xct_tab w0 = xct_tab w" "trace w0 = trace w @ EvRollback t sp # es"
    "the_log w0 = the_log w"
    by (auto simp: emit_def)
  with w1 lk show ?thesis by (auto simp: upd_xct_def)
qed

lemma map_tid_upd_first:
  "(\<And>x. xct_tid (f x) = xct_tid x) \<Longrightarrow> map xct_tid (upd_first t f xs) = map xct_tid xs"
  by (induction xs) auto

lemma set_heap_insert: "set (heap_insert w t hs) = insert t (set hs)"
  by (induction hs) auto

lemma set_heapify: "set (heapify w ts) = set ts"
  by (induction ts) (simp_all add: heapify_def set_heap_insert)


lemma map_tid_del_first: "map xct_tid (del_first t xs) = remove1 t (map xct_tid xs)"
  by (induction xs) auto

lemma undo_reverse_loop_inv:
  assumes "undo_reverse_loop heap w = Some y"
  shows "\<forall>heap1 w1. y = Inr (heap1, w1) \<longrightarrow>
           set heap1 = set heap \<and> map xct_tid (xct_tab w1) = map xct_tid (xct_tab w)
           \<and> (\<exists>es. trace w1 = trace w @ es)"
proof (rule undo_reverse_loop.raw_induct[where
         P = "\<lambda>heap w y. \<forall>heap1 w1. y = Inr (heap1, w1) \<longrightarrow>
           set heap1 = set heap \<and> map xct_tid (xct_tab w1) = map xct_tid (xct_tab w)
           \<and> (\<exists>es. trace w1 = trace w @ es)", OF _ assms])
  fix f heap w y
  assume IH: "\<And>h v y. f h v = Some y \<Longrightarrow>
              \<forall>heap1 w1. y = Inr (heap1, w1) \<longrightarrow>
                set heap1 = set h \<and> map xct_tid (xct_tab w1) = map xct_tid (xct_tab v)
                \<and> (\<exists>es. trace w1 = trace v @ es)"
    and body: "(case heap of [] \<Rightarrow> Some (Inr (heap, w)) | [t1] \<Rightarrow> Some (Inr (heap, w))
      | t1 # t2 # rest \<Rightarrow>
          case look_up t1 w of None \<Rightarrow> Some (Inl NullXct)
          | Some xd \<Rightarrow>
              if xct_undo_nxt xd \<noteq> lsn_null
              then if xct_is_sys xd \<and> xct_is_single_log_sys xd
                   then f (heap_insert (upd_xct t1 (\<lambda>x. x\<lparr>xct_undo_nxt := lsn_null\<rparr>) w)
                             t1 (t2 # rest))
                          (upd_xct t1 (\<lambda>x. x\<lparr>xct_undo_nxt := lsn_null\<rparr>) w)
                   else case look_up t2 w of None \<Rightarrow> Some (Inl NullXct)
                        | Some x2 \<Rightarrow>
                            case rollback t1 (xct_undo_nxt x2) w of
                            None \<Rightarrow> None | Some (Inl e) \<Rightarrow> Some (Inl e)
                            | Some (Inr w1) \<Rightarrow> f (heap_insert w1 t1 (t2 # rest)) w1
              else Some (Inr (heap, w))) = Some y"
  show "\<forall>heap1 w1. y = Inr (heap1, w1) \<longrightarrow>
           set heap1 = set heap \<and> map xct_tid (xct_tab w1) = map xct_tid (xct_tab w)
           \<and> (\<exists>es. trace w1 = trace w @ es)"
  proof (cases heap)
    case Nil
    with body show ?thesis by auto
  next
    case (Cons t1 tl)
    show ?thesis
    proof (cases tl)
      case Nil
      with Cons body show ?thesis by auto
    next
      case (Cons t2 rest)
      note heap = \<open>heap = t1 # tl\<close> Cons
      show ?thesis
      proof (cases "look_up t1 w")
        case None
        with heap body show ?thesis by auto
      next
        case (Some xd)
        show ?thesis
        proof (cases "xct_undo_nxt xd \<noteq> lsn_null")
          case False
          with heap Some body show ?thesis by auto
        next
          case nn: True
          show ?thesis
          proof (cases "xct_is_sys xd \<and> xct_is_single_log_sys xd")
            case True
            let ?w = "upd_xct t1 (\<lambda>x. x\<lparr>xct_undo_nxt := lsn_null\<rparr>) w"
            from heap Some nn True body
            have "f (heap_insert ?w t1 (t2 # rest)) ?w = Some y"
              by (simp del: heap_insert.simps)
            from IH[OF this] heap show ?thesis
              by (auto simp: set_heap_insert upd_xct_def map_tid_upd_first)
          next
            case False
            show ?thesis
            proof (cases "look_up t2 w")
              case None
              with heap Some nn False body show ?thesis by auto
            next
              case x2: (Some x2)
              show ?thesis
              proof (cases "rollback t1 (xct_undo_nxt x2) w")
                case None
                with heap Some nn False x2 body show ?thesis by auto
              next
                case rb: (Some m)
                show ?thesis
                proof (cases m)
                  case (Inl e)
                  with heap Some nn False x2 rb body show ?thesis by auto
                next
                  case (Inr w1)
                  with heap Some nn False x2 rb body
                  have c: "f (heap_insert w1 t1 (t2 # rest)) w1 = Some y"
                    by (auto simp del: heap_insert.simps)
                  from rb Inr have "rollback t1 (xct_undo_nxt x2) w = Some (Inr w1)" by simp
                  from rollback_props[OF this] obtain n es where
                    "xct_tab w1 = upd_first t1 (\<lambda>x. x\<lparr>xct_undo_nxt := n\<rparr>) (xct_tab w)"
                    "trace w1 = trace w @ EvRollback t1 (xct_undo_nxt x2) # es"
                    by blast
                  with IH[OF c] heap show ?thesis
                    by (auto simp: set_heap_insert map_tid_upd_first)
                qed
              qed
            qed
          qed
        qed
      qed
    qed
  qed
qed

lemma undo_drain_props:
  "undo_drain hs w = Some (Inr w2) \<Longrightarrow> distinct (map xct_tid (xct_tab w)) \<Longrightarrow>
     (\<forall>t \<in> set hs. EvAbort t \<in> set (trace w2))
   \<and> set (map xct_tid (xct_tab w2)) = set (map xct_tid (xct_tab w)) - set hs
   \<and> (\<exists>es. trace w2 = trace w @ es)"
proof (induction hs arbitrary: w)
  case Nil
  then show ?case by simp
next
  case (Cons t hs)
  from Cons.prems(1) obtain w1 where ab: "abort_xct t w = Some (Inr w1)"
    and r: "undo_drain hs (destroy_xct t w1) = Some (Inr w2)"
    by (auto split: option.splits sum.splits)
  from abort_xct_props[OF ab] obtain n es where
    t1: "xct_tab w1 = upd_first t (\<lambda>x. x\<lparr>xct_undo_nxt := n, xct_state := xct_ended\<rparr>) (xct_tab w)"
    and tr: "trace w1 = trace w @ EvAbort t # es"
    by blast
  have tids: "map xct_tid (xct_tab (destroy_xct t w1)) = remove1 t (map xct_tid (xct_tab w))"
    by (simp add: destroy_xct_def map_tid_del_first t1 map_tid_upd_first)
  have d: "distinct (map xct_tid (xct_tab (destroy_xct t w1)))"
    using Cons.prems(2) by (simp add: tids)
  from Cons.IH[OF r d] obtain es' where
    a: "\<forall>t \<in> set hs. EvAbort t \<in> set (trace w2)"
    and b: "set (map xct_tid (xct_tab w2)) = set (map xct_tid (xct_tab (destroy_xct t w1))) - set hs"
    and c: "trace w2 = trace (destroy_xct t w1) @ es'"
    by blast
  have c': "trace w2 = trace w @ EvAbort t # es @ es'" using c tr by (simp add: destroy_xct_def)
  have b': "set (map xct_tid (xct_tab w2)) = set (map xct_tid (xct_tab w)) - set (t # hs)"
    using b Cons.prems(2) by (auto simp: tids)
  from a b' c' show ?case by auto
qed

lemma owned_cong: "the_log w' = the_log w \<Longrightarrow> owned w' t l = owned w t l"
  by (simp add: owned_def log_fetch_def)

lemma log_chains_cong: "the_log w' = the_log w \<Longrightarrow> log_chains w' = log_chains w"
  by (simp add: log_chains_def owned_def log_fetch_def)

lemma rollback_loop_total:
  assumes "log_chains w" and "owned w t nxt"
  shows "\<exists>n w1. rollback_loop t sp nxt w = Some (Inr (n, w1)) \<and> owned w t n"
  using assms
proof (induction nxt arbitrary: w rule: measure_induct_rule[where f = unat])
  case (less nxt)
  show ?case
  proof (cases "sp < nxt")
    case False
    then have "rollback_loop t sp nxt w = Some (Inr (nxt, w))"
      by (subst rollback_loop.simps) simp
    with less.prems show ?thesis by blast
  next
    case True
    then have "nxt \<noteq> lsn_null" by (auto simp: lsn_null_def)
    with less.prems(2) obtain r where f: "log_fetch nxt w = Some r" and tr: "tid r = t"
      by (auto simp: owned_def)
    from f have "(nxt, r) \<in> set (the_log w)" by (simp add: log_fetch_def map_of_SomeD)
    with less.prems(1) tr have lt: "xid_prev r < nxt" and ow: "owned w t (xid_prev r)"
      by (auto simp: log_chains_def)
    let ?w = "if is_undo r then emit (EvUndo t nxt) w else w"
    have lg: "the_log ?w = the_log w" by (simp add: emit_def)
    have lc: "log_chains ?w" using less.prems(1) log_chains_cong[OF lg] by simp
    have ow': "owned ?w t (xid_prev r)" using ow owned_cong[OF lg] by simp
    from lt have "unat (xid_prev r) < unat nxt" by (simp add: word_less_nat_alt)
    from less.IH[OF this lc ow'] obtain n w1 where
      "rollback_loop t sp (xid_prev r) ?w = Some (Inr (n, w1))" and "owned ?w t n" by blast
    moreover have "rollback_loop t sp nxt w = rollback_loop t sp (xid_prev r) ?w"
      using True f by (subst rollback_loop.simps) simp
    ultimately show ?thesis using owned_cong[OF lg] by auto
  qed
qed

lemma rollback_total:
  assumes lc: "log_chains w" and lk: "look_up t w = Some x"
      and ow: "owned w t (xct_undo_nxt x)"
  shows "\<exists>n w1 es. rollback t sp w = Some (Inr w1) \<and> owned w t n \<and> n \<le> sp
           \<and> n \<le> xct_undo_nxt x
           \<and> xct_tab w1 = upd_first t (\<lambda>x. x\<lparr>xct_undo_nxt := n\<rparr>) (xct_tab w)
           \<and> the_log w1 = the_log w \<and> trace w1 = trace w @ EvRollback t sp # es"
proof -
  let ?w = "emit (EvRollback t sp) w"
  have lg: "the_log ?w = the_log w" by (simp add: emit_def)
  have lc': "log_chains ?w" using lc log_chains_cong[OF lg] by simp
  have ow': "owned ?w t (xct_undo_nxt x)" using ow owned_cong[OF lg] by simp
  from rollback_loop_total[OF lc' ow', of sp] obtain n w0 where
    rl: "rollback_loop t sp (xct_undo_nxt x) ?w = Some (Inr (n, w0))" and on: "owned ?w t n"
    by blast
  from rollback_loop_props[OF rl] obtain es where
    p: "n \<le> sp" "n \<le> xct_undo_nxt x" "xct_tab w0 = xct_tab w"
       "trace w0 = trace w @ EvRollback t sp # es" "the_log w0 = the_log w"
    by (auto simp: emit_def)
  let ?w1 = "upd_xct t (\<lambda>x. x\<lparr>xct_undo_nxt := n\<rparr>) w0"
  have "rollback t sp w = Some (Inr ?w1)" using lk rl by (simp add: rollback_def)
  moreover have "owned w t n" using on owned_cong[OF lg] by simp
  ultimately show ?thesis using p by (auto simp: upd_xct_def)
qed

lemma abort_total:
  assumes lc: "log_chains w" and lk: "look_up t w = Some x"
      and ow: "owned w t (xct_undo_nxt x)"
  shows "\<exists>w1. abort_xct t w = Some (Inr w1)"
proof -
  let ?w = "emit (EvAbort t) w"
  have lg: "the_log ?w = the_log w" by (simp add: emit_def)
  have lc': "log_chains ?w" using lc log_chains_cong[OF lg] by simp
  have ow': "owned ?w t (xct_undo_nxt x)" using ow owned_cong[OF lg] by simp
  from rollback_loop_total[OF lc' ow', of lsn_null] obtain n w0 where
    "rollback_loop t lsn_null (xct_undo_nxt x) ?w = Some (Inr (n, w0))" by blast
  with lk show ?thesis by (simp add: abort_xct_def)
qed

lemma find_upd_first_other:
  "t \<noteq> t' \<Longrightarrow> (\<And>x. xct_tid (f x) = xct_tid x) \<Longrightarrow>
   find (\<lambda>x. xct_tid x = t) (upd_first t' f xs) = find (\<lambda>x. xct_tid x = t) xs"
  by (induction xs) auto

lemma find_del_first_other:
  "t \<noteq> t' \<Longrightarrow> find (\<lambda>x. xct_tid x = t) (del_first t' xs) = find (\<lambda>x. xct_tid x = t) xs"
  by (induction xs) auto

lemma sum_heap_insert:
  "sum_list (map k (heap_insert w t hs)) = (k t :: nat) + sum_list (map k hs)"
  by (induction hs) auto

lemma distinct_heap_insert:
  "distinct (heap_insert w t hs) = (t \<notin> set hs \<and> distinct hs)"
  by (induction hs) (auto simp: set_heap_insert)

lemma sorted_heap_insert:
  "sorted_wrt (\<lambda>a b. undo_nxt_of w b \<le> undo_nxt_of w a) hs \<Longrightarrow>
   sorted_wrt (\<lambda>a b. undo_nxt_of w b \<le> undo_nxt_of w a) (heap_insert w t hs)"
  by (induction hs) (auto simp: set_heap_insert intro: order_trans)

lemma undo_step:
  assumes rdy: "undo_ready (t1 # ts) w"
    and lk: "look_up t1 w = Some x1"
    and tab: "xct_tab w1 = upd_first t1 (\<lambda>x. x\<lparr>xct_undo_nxt := n\<rparr>) (xct_tab w)"
    and lg: "the_log w1 = the_log w"
    and own: "owned w t1 n"
    and lt: "n < xct_undo_nxt x1"
  shows "undo_ready (heap_insert w1 t1 ts) w1
       \<and> undo_left (heap_insert w1 t1 ts) w1 < undo_left (t1 # ts) w
       \<and> look_up t1 w1 = Some (x1\<lparr>xct_undo_nxt := n\<rparr>)"
proof -
  from rdy have nin: "t1 \<notin> set ts" and dts: "distinct ts"
    and sts: "sorted_wrt (\<lambda>a b. undo_nxt_of w b \<le> undo_nxt_of w a) ts"
    and ots: "\<forall>t \<in> set ts. case look_up t w of None \<Rightarrow> False
                                      | Some x \<Rightarrow> owned w t (xct_undo_nxt x)"
    by (auto simp: undo_ready_def)
  have l1: "look_up t1 w1 = Some (x1\<lparr>xct_undo_nxt := n\<rparr>)"
    using lk by (simp add: look_up_def tab find_upd_first)
  have l2: "look_up t w1 = look_up t w" if "t \<noteq> t1" for t
    using that by (simp add: look_up_def tab find_upd_first_other)
  have k1: "undo_nxt_of w1 t1 = n" by (simp add: undo_nxt_of_def l1)
  have k2: "undo_nxt_of w1 t = undo_nxt_of w t" if "t \<in> set ts" for t
  proof -
    from that nin have "t \<noteq> t1" by auto
    from l2[OF this] show ?thesis by (simp add: undo_nxt_of_def)
  qed
  have k0: "undo_nxt_of w t1 = xct_undo_nxt x1" by (simp add: undo_nxt_of_def lk)
  have sts1: "sorted_wrt (\<lambda>a b. undo_nxt_of w1 b \<le> undo_nxt_of w1 a) ts"
    by (rule sorted_wrt_mono_rel[OF _ sts]) (simp add: k2)
  have s: "sorted_wrt (\<lambda>a b. undo_nxt_of w1 b \<le> undo_nxt_of w1 a) (heap_insert w1 t1 ts)"
    by (rule sorted_heap_insert[OF sts1])
  have d: "distinct (heap_insert w1 t1 ts)" using nin dts by (simp add: distinct_heap_insert)
  have o: "\<forall>t \<in> set (heap_insert w1 t1 ts). case look_up t w1 of None \<Rightarrow> False
                                      | Some x \<Rightarrow> owned w1 t (xct_undo_nxt x)"
  proof
    fix t assume "t \<in> set (heap_insert w1 t1 ts)"
    then consider "t = t1" | "t \<in> set ts" "t \<noteq> t1" using nin by (auto simp: set_heap_insert)
    then show "case look_up t w1 of None \<Rightarrow> False | Some x \<Rightarrow> owned w1 t (xct_undo_nxt x)"
    proof cases
      case 1
      then show ?thesis using l1 own owned_cong[OF lg] by simp
    next
      case 2
      with ots l2[of t] show ?thesis by (auto simp: owned_cong[OF lg] split: option.splits)
    qed
  qed
  have "map (\<lambda>t. unat (undo_nxt_of w1 t)) ts = map (\<lambda>t. unat (undo_nxt_of w t)) ts"
    by (rule map_cong) (simp_all add: k2)
  then have "sum_list (map (\<lambda>t. unat (undo_nxt_of w1 t)) ts)
               = sum_list (map (\<lambda>t. unat (undo_nxt_of w t)) ts)"
    by (rule arg_cong)
  then have "undo_left (heap_insert w1 t1 ts) w1
               = unat n + sum_list (map (\<lambda>t. unat (undo_nxt_of w t)) ts)"
    by (simp only: undo_left_def sum_heap_insert k1)
  moreover have "undo_left (t1 # ts) w
               = unat (xct_undo_nxt x1) + sum_list (map (\<lambda>t. unat (undo_nxt_of w t)) ts)"
    by (simp add: undo_left_def k0)
  moreover from lt have "unat n < unat (xct_undo_nxt x1)" by (simp add: word_less_nat_alt)
  ultimately have m: "undo_left (heap_insert w1 t1 ts) w1 < undo_left (t1 # ts) w" by simp
  from d o s m l1 show ?thesis by (simp add: undo_ready_def)
qed

text \<open>One round of the loop on a top transaction that is not a system transaction.\<close>

lemma undo_round:
  assumes lc: "log_chains w" and rdy: "undo_ready (t1 # t2 # rest) w"
    and lk1: "look_up t1 w = Some x1" and lk2: "look_up t2 w = Some x2"
    and nn: "xct_undo_nxt x1 \<noteq> lsn_null"
    and ns: "\<not> (xct_is_sys x1 \<and> xct_is_single_log_sys x1)"
  shows "\<exists>w1 n es. rollback t1 (xct_undo_nxt x2) w = Some (Inr w1)
          \<and> undo_reverse_loop (t1 # t2 # rest) w
              = undo_reverse_loop (heap_insert w1 t1 (t2 # rest)) w1
          \<and> trace w1 = trace w @ EvRollback t1 (xct_undo_nxt x2) # es
          \<and> look_up t1 w1 = Some (x1\<lparr>xct_undo_nxt := n\<rparr>)
          \<and> n \<le> xct_undo_nxt x2 \<and> xct_undo_nxt x2 < xct_undo_nxt x1
          \<and> (n < xct_undo_nxt x2 \<or> n = lsn_null)
          \<and> log_chains w1 \<and> undo_ready (heap_insert w1 t1 (t2 # rest)) w1
          \<and> undo_left (heap_insert w1 t1 (t2 # rest)) w1 < undo_left (t1 # t2 # rest) w"
proof -
  from rdy lk1 lk2 have o1: "owned w t1 (xct_undo_nxt x1)" and o2: "owned w t2 (xct_undo_nxt x2)"
    and ne: "t1 \<noteq> t2" and le: "xct_undo_nxt x2 \<le> xct_undo_nxt x1"
    by (auto simp: undo_ready_def undo_nxt_of_def)
  have "xct_undo_nxt x2 \<noteq> xct_undo_nxt x1"
  proof
    assume "xct_undo_nxt x2 = xct_undo_nxt x1"
    with o1 o2 nn have "t1 = t2" by (auto simp: owned_def)
    with ne show False by simp
  qed
  with le have fl: "xct_undo_nxt x2 < xct_undo_nxt x1" by simp
  from rollback_total[OF lc lk1 o1, of "xct_undo_nxt x2"] obtain n w1 es where
    rb: "rollback t1 (xct_undo_nxt x2) w = Some (Inr w1)" and on: "owned w t1 n"
    and n1: "n \<le> xct_undo_nxt x2"
    and tab: "xct_tab w1 = upd_first t1 (\<lambda>x. x\<lparr>xct_undo_nxt := n\<rparr>) (xct_tab w)"
    and lg: "the_log w1 = the_log w"
    and tr: "trace w1 = trace w @ EvRollback t1 (xct_undo_nxt x2) # es"
    by blast
  from n1 fl have lt: "n < xct_undo_nxt x1" by simp
  have bl: "n < xct_undo_nxt x2 \<or> n = lsn_null"
  proof (cases "n = xct_undo_nxt x2")
    case True
    with on o2 ne show ?thesis by (auto simp: owned_def)
  next
    case False
    with n1 have "n < xct_undo_nxt x2" by (simp add: order_less_le)
    then show ?thesis by simp
  qed
  from undo_step[OF rdy lk1 tab lg on lt] have
    st: "undo_ready (heap_insert w1 t1 (t2 # rest)) w1"
        "undo_left (heap_insert w1 t1 (t2 # rest)) w1 < undo_left (t1 # t2 # rest) w"
        "look_up t1 w1 = Some (x1\<lparr>xct_undo_nxt := n\<rparr>)"
    by blast+
  have eq: "undo_reverse_loop (t1 # t2 # rest) w
              = undo_reverse_loop (heap_insert w1 t1 (t2 # rest)) w1"
    using lk1 lk2 nn ns rb by (subst undo_reverse_loop.simps) (auto simp del: heap_insert.simps)
  have "log_chains w1" using lc log_chains_cong[OF lg] by simp
  with rb eq tr st n1 fl bl show ?thesis by blast
qed

lemma undo_reverse_loop_total:
  assumes "log_chains w" and "undo_ready heap w"
  shows "\<exists>heap1 w1. undo_reverse_loop heap w = Some (Inr (heap1, w1))
           \<and> log_chains w1 \<and> undo_ready heap1 w1"
  using assms
proof (induction "undo_left heap w" arbitrary: heap w rule: less_induct)
  case less
  show ?case
  proof (cases heap)
    case Nil
    then have "undo_reverse_loop heap w = Some (Inr (heap, w))"
      by (subst undo_reverse_loop.simps) simp
    with less.prems show ?thesis by blast
  next
    case (Cons t1 tl)
    show ?thesis
    proof (cases tl)
      case Nil
      with Cons have "undo_reverse_loop heap w = Some (Inr (heap, w))"
        by (subst undo_reverse_loop.simps) simp
      with less.prems show ?thesis by blast
    next
      case (Cons t2 rest)
      with \<open>heap = t1 # tl\<close> have heap: "heap = t1 # t2 # rest" by simp
      from less.prems(2) heap obtain x1 x2 where
        lk1: "look_up t1 w = Some x1" and lk2: "look_up t2 w = Some x2"
        and o1: "owned w t1 (xct_undo_nxt x1)"
        by (auto simp: undo_ready_def split: option.splits)
      show ?thesis
      proof (cases "xct_undo_nxt x1 = lsn_null")
        case True
        with heap lk1 have "undo_reverse_loop heap w = Some (Inr (heap, w))"
          by (subst undo_reverse_loop.simps) simp
        with less.prems show ?thesis by blast
      next
        case nn: False
        show ?thesis
        proof (cases "xct_is_sys x1 \<and> xct_is_single_log_sys x1")
          case True
          let ?w = "upd_xct t1 (\<lambda>x. x\<lparr>xct_undo_nxt := lsn_null\<rparr>) w"
          have tab: "xct_tab ?w = upd_first t1 (\<lambda>x. x\<lparr>xct_undo_nxt := lsn_null\<rparr>) (xct_tab w)"
            and lg: "the_log ?w = the_log w" by (simp_all add: upd_xct_def)
          have on: "owned w t1 lsn_null" by (simp add: owned_def)
          from nn have lt: "lsn_null < xct_undo_nxt x1"
            by (simp add: lsn_null_def word_neq_0_conv)
          from undo_step[OF less.prems(2)[unfolded heap] lk1 tab lg on lt] have
            st: "undo_ready (heap_insert ?w t1 (t2 # rest)) ?w"
                "undo_left (heap_insert ?w t1 (t2 # rest)) ?w < undo_left heap w"
            unfolding heap by blast+
          have lc: "log_chains ?w" using less.prems(1) log_chains_cong[OF lg] by simp
          have eq: "undo_reverse_loop heap w
                      = undo_reverse_loop (heap_insert ?w t1 (t2 # rest)) ?w"
            unfolding heap using lk1 nn True
            by (subst undo_reverse_loop.simps) (simp del: heap_insert.simps)
          from less.hyps[OF st(2) lc st(1)] eq show ?thesis by simp
        next
          case False
          from undo_round[OF less.prems(1) less.prems(2)[unfolded heap] lk1 lk2 nn False]
          obtain w1 where
            eq: "undo_reverse_loop (t1 # t2 # rest) w
                   = undo_reverse_loop (heap_insert w1 t1 (t2 # rest)) w1"
            and lc: "log_chains w1"
            and rd: "undo_ready (heap_insert w1 t1 (t2 # rest)) w1"
            and m: "undo_left (heap_insert w1 t1 (t2 # rest)) w1 < undo_left (t1 # t2 # rest) w"
            by blast
          from less.hyps[OF m[folded heap] lc rd] eq heap show ?thesis by simp
        qed
      qed
    qed
  qed
qed

lemma undo_drain_total:
  assumes "log_chains w"
    and "\<forall>t \<in> set hs. case look_up t w of None \<Rightarrow> False
                                  | Some x \<Rightarrow> owned w t (xct_undo_nxt x)"
    and "distinct hs"
  shows "\<exists>w2. undo_drain hs w = Some (Inr w2)"
  using assms
proof (induction hs arbitrary: w)
  case Nil
  then show ?case by simp
next
  case (Cons t hs)
  from Cons.prems(2) obtain x where lk: "look_up t w = Some x"
    and ow: "owned w t (xct_undo_nxt x)" by (auto split: option.splits)
  from abort_total[OF Cons.prems(1) lk ow] obtain w1 where ab: "abort_xct t w = Some (Inr w1)"
    by blast
  from abort_xct_props[OF ab] obtain n where
    tab: "xct_tab w1 = upd_first t (\<lambda>x. x\<lparr>xct_undo_nxt := n, xct_state := xct_ended\<rparr>) (xct_tab w)"
    and lg: "the_log w1 = the_log w" by blast
  let ?w = "destroy_xct t w1"
  have lg': "the_log ?w = the_log w" using lg by (simp add: destroy_xct_def)
  have lc: "log_chains ?w" using Cons.prems(1) log_chains_cong[OF lg'] by simp
  have lk': "look_up t' ?w = look_up t' w" if "t' \<noteq> t" for t'
    using that by (simp add: look_up_def destroy_xct_def tab find_del_first_other
         find_upd_first_other)
  have o: "\<forall>t' \<in> set hs. case look_up t' ?w of None \<Rightarrow> False
                                  | Some x \<Rightarrow> owned ?w t' (xct_undo_nxt x)"
  proof
    fix t' assume t': "t' \<in> set hs"
    with Cons.prems(3) have "t' \<noteq> t" by auto
    from lk'[OF this] Cons.prems(2) t'
    show "case look_up t' ?w of None \<Rightarrow> False | Some x \<Rightarrow> owned ?w t' (xct_undo_nxt x)"
      by (auto simp: owned_cong[OF lg'] split: option.splits)
  qed
  from Cons.prems(3) have "distinct hs" by simp
  from Cons.IH[OF lc o this] ab show ?case by simp
qed

lemma undo_ready_cong:
  "xct_tab w' = xct_tab w \<Longrightarrow> the_log w' = the_log w \<Longrightarrow> undo_ready h w' = undo_ready h w"
proof -
  assume tb: "xct_tab w' = xct_tab w" and lg: "the_log w' = the_log w"
  have "owned w' = owned w" by (intro ext) (rule owned_cong[OF lg])
  moreover have "look_up t w' = look_up t w" for t by (simp add: look_up_def tb)
  ultimately show ?thesis
    by (simp add: undo_ready_def undo_nxt_of_def cong: option.case_cong)
qed

lemmas undo_rev_sample_defs =
  world_undo_rev_def world0_def xct7_two_def xct8_def rec_insert400_def rec_insert300_t8_def
  rec_insert200_def logrec0_def pid42_def cfg_serial_def

text \<open>
  C6. Reverse-chronological Undo on a well-formed log, with a heap in order over distinct
  transactions of the table (the transaction table having distinct tids). In any state of
  the rollback loop where the heap holds at least two transactions and the \<open>undo_nxt\<close> of
  the top one, not a system transaction, is not null: the top transaction is rolled back
  to the \<open>undo_nxt\<close> of the second (the floor), the rollback returns, and the top
  transaction's \<open>undo_nxt\<close> afterwards is below the floor or null, and strictly below its
  value before; the loop goes on with the heap put in order again, in a state that is
  well-formed again and whose measure \<open>undo_left\<close> is strictly smaller. The state on entry
  to the loop is well-formed. The whole pass returns: every transaction of the heap has
  had the standard abort invoked and is no longer in the table, and, the heap not being
  empty, the pass begins with the log comment and ends with the log flush.
\<close>

theorem undo_reverse_pass_order:
  assumes lc: "log_chains w"
      and rdy: "undo_ready heap w"
      and eff: "heap = (if \<not> use_serial_recovery cfg \<and> use_undo_reverse_recovery cfg
                        then heapify w (heap0 @ map xct_tid (filter doomed_active (xct_tab w)))
                        else heap0)"
      and dist: "distinct (map xct_tid (xct_tab w))"
  shows
   "(\<forall>t1 t2 rest x1 x2.
        heap = t1 # t2 # rest \<and> look_up t1 w = Some x1 \<and> look_up t2 w = Some x2
        \<and> xct_undo_nxt x1 \<noteq> lsn_null \<and> \<not> (xct_is_sys x1 \<and> xct_is_single_log_sys x1) \<longrightarrow>
          (\<exists>w1 n es. rollback t1 (xct_undo_nxt x2) w = Some (Inr w1)
             \<and> undo_reverse_loop heap w = undo_reverse_loop (heap_insert w1 t1 (t2 # rest)) w1
             \<and> trace w1 = trace w @ EvRollback t1 (xct_undo_nxt x2) # es
             \<and> look_up t1 w1 = Some (x1\<lparr>xct_undo_nxt := n\<rparr>)
             \<and> n \<le> xct_undo_nxt x2 \<and> n < xct_undo_nxt x1
             \<and> (n < xct_undo_nxt x2 \<or> n = lsn_null)
             \<and> log_chains w1 \<and> undo_ready (heap_insert w1 t1 (t2 # rest)) w1
             \<and> undo_left (heap_insert w1 t1 (t2 # rest)) w1 < undo_left heap w))
    \<and> log_chains (emit EvLogComment w) \<and> undo_ready heap (emit EvLogComment w)
    \<and> (\<exists>w'. undo_reverse_pass cfg heap0 w = Some (Inr w')
          \<and> (\<forall>t \<in> set heap. EvAbort t \<in> set (trace w') \<and> look_up t w' = None)
          \<and> (heap \<noteq> [] \<longrightarrow> (\<exists>es. trace w' = trace w @ EvLogComment # es @ [EvFlushAll])))"
proof -
  have A: "\<forall>t1 t2 rest x1 x2.
        heap = t1 # t2 # rest \<and> look_up t1 w = Some x1 \<and> look_up t2 w = Some x2
        \<and> xct_undo_nxt x1 \<noteq> lsn_null \<and> \<not> (xct_is_sys x1 \<and> xct_is_single_log_sys x1) \<longrightarrow>
          (\<exists>w1 n es. rollback t1 (xct_undo_nxt x2) w = Some (Inr w1)
             \<and> undo_reverse_loop heap w = undo_reverse_loop (heap_insert w1 t1 (t2 # rest)) w1
             \<and> trace w1 = trace w @ EvRollback t1 (xct_undo_nxt x2) # es
             \<and> look_up t1 w1 = Some (x1\<lparr>xct_undo_nxt := n\<rparr>)
             \<and> n \<le> xct_undo_nxt x2 \<and> n < xct_undo_nxt x1
             \<and> (n < xct_undo_nxt x2 \<or> n = lsn_null)
             \<and> log_chains w1 \<and> undo_ready (heap_insert w1 t1 (t2 # rest)) w1
             \<and> undo_left (heap_insert w1 t1 (t2 # rest)) w1 < undo_left heap w)"
  proof (intro allI impI)
    fix t1 t2 rest x1 x2
    assume h: "heap = t1 # t2 # rest \<and> look_up t1 w = Some x1 \<and> look_up t2 w = Some x2
        \<and> xct_undo_nxt x1 \<noteq> lsn_null \<and> \<not> (xct_is_sys x1 \<and> xct_is_single_log_sys x1)"
    then have hp: "heap = t1 # t2 # rest" and lk1: "look_up t1 w = Some x1"
      and lk2: "look_up t2 w = Some x2" and nn: "xct_undo_nxt x1 \<noteq> lsn_null"
      and ns: "\<not> (xct_is_sys x1 \<and> xct_is_single_log_sys x1)" by blast+
    from undo_round[OF lc rdy[unfolded hp] lk1 lk2 nn ns] obtain w1 n es where
      r: "rollback t1 (xct_undo_nxt x2) w = Some (Inr w1)"
         "undo_reverse_loop (t1 # t2 # rest) w
            = undo_reverse_loop (heap_insert w1 t1 (t2 # rest)) w1"
         "trace w1 = trace w @ EvRollback t1 (xct_undo_nxt x2) # es"
         "look_up t1 w1 = Some (x1\<lparr>xct_undo_nxt := n\<rparr>)"
         "n \<le> xct_undo_nxt x2" "xct_undo_nxt x2 < xct_undo_nxt x1"
         "n < xct_undo_nxt x2 \<or> n = lsn_null"
         "log_chains w1" "undo_ready (heap_insert w1 t1 (t2 # rest)) w1"
         "undo_left (heap_insert w1 t1 (t2 # rest)) w1 < undo_left (t1 # t2 # rest) w"
      by blast
    from r(5,6) have "n < xct_undo_nxt x1" by simp
    with r show "\<exists>w1 n es. rollback t1 (xct_undo_nxt x2) w = Some (Inr w1)
             \<and> undo_reverse_loop heap w = undo_reverse_loop (heap_insert w1 t1 (t2 # rest)) w1
             \<and> trace w1 = trace w @ EvRollback t1 (xct_undo_nxt x2) # es
             \<and> look_up t1 w1 = Some (x1\<lparr>xct_undo_nxt := n\<rparr>)
             \<and> n \<le> xct_undo_nxt x2 \<and> n < xct_undo_nxt x1
             \<and> (n < xct_undo_nxt x2 \<or> n = lsn_null)
             \<and> log_chains w1 \<and> undo_ready (heap_insert w1 t1 (t2 # rest)) w1
             \<and> undo_left (heap_insert w1 t1 (t2 # rest)) w1 < undo_left heap w"
      unfolding hp by blast
  qed
  let ?w = "emit EvLogComment w"
  have tb: "xct_tab ?w = xct_tab w" and lg: "the_log ?w = the_log w" by (simp_all add: emit_def)
  have lc0: "log_chains ?w" using lc log_chains_cong[OF lg] by simp
  have rdy0: "undo_ready heap ?w" using rdy undo_ready_cong[OF tb lg] by simp
  have B: "\<exists>w'. undo_reverse_pass cfg heap0 w = Some (Inr w')
          \<and> (\<forall>t \<in> set heap. EvAbort t \<in> set (trace w') \<and> look_up t w' = None)
          \<and> (heap \<noteq> [] \<longrightarrow> (\<exists>es. trace w' = trace w @ EvLogComment # es @ [EvFlushAll]))"
  proof (cases "heap = []")
    case True
    with eff have "undo_reverse_pass cfg heap0 w = Some (Inr w)"
      by (simp add: undo_reverse_pass_def)
    with True show ?thesis by simp
  next
    case False
    from undo_reverse_loop_total[OF lc0 rdy0] obtain heap1 w1 where
      lp: "undo_reverse_loop heap ?w = Some (Inr (heap1, w1))"
      and lc1: "log_chains w1" and rdy1: "undo_ready heap1 w1" by blast
    from undo_reverse_loop_inv[OF lp] obtain es1 where
      sh: "set heap1 = set heap" and tids: "map xct_tid (xct_tab w1) = map xct_tid (xct_tab w)"
      and tr1: "trace w1 = trace w @ EvLogComment # es1"
      by (auto simp: emit_def)
    from rdy1 have o1: "\<forall>t \<in> set heap1. case look_up t w1 of None \<Rightarrow> False
                                  | Some x \<Rightarrow> owned w1 t (xct_undo_nxt x)"
      and d1: "distinct heap1" by (simp_all add: undo_ready_def)
    from undo_drain_total[OF lc1 o1 d1] obtain w2 where
      dr: "undo_drain heap1 w1 = Some (Inr w2)" by blast
    have dt: "distinct (map xct_tid (xct_tab w1))" using dist tids by simp
    from undo_drain_props[OF dr dt] obtain es2 where
      ab: "\<forall>t \<in> set heap1. EvAbort t \<in> set (trace w2)"
      and gone: "set (map xct_tid (xct_tab w2)) = set (map xct_tid (xct_tab w1)) - set heap1"
      and tr2: "trace w2 = trace w1 @ es2" by blast
    have ret: "undo_reverse_pass cfg heap0 w = Some (Inr (emit EvFlushAll w2))"
      using False eff lp dr by (simp add: undo_reverse_pass_def)
    have p1: "\<forall>t \<in> set heap. EvAbort t \<in> set (trace (emit EvFlushAll w2))
                 \<and> look_up t (emit EvFlushAll w2) = None"
    proof
      fix t assume t: "t \<in> set heap"
      with ab sh have a: "EvAbort t \<in> set (trace (emit EvFlushAll w2))" by (simp add: emit_def)
      from t gone sh have "t \<notin> xct_tid ` set (xct_tab w2)" by auto
      then have "look_up t (emit EvFlushAll w2) = None"
        by (auto simp: look_up_def emit_def find_None_iff)
      with a show "EvAbort t \<in> set (trace (emit EvFlushAll w2))
                 \<and> look_up t (emit EvFlushAll w2) = None" by simp
    qed
    have p2: "\<exists>es. trace (emit EvFlushAll w2) = trace w @ EvLogComment # es @ [EvFlushAll]"
      using tr1 tr2 by (simp add: emit_def)
    from ret p1 p2 show ?thesis by blast
  qed
  from A lc0 rdy0 B show ?thesis by blast
qed

text \<open>The sample: transaction 7 is rolled back from 400 to below 300, then transaction 8
  from 300, then transaction 7 from 200; both are aborted and destroyed and the log is
  flushed.\<close>

theorem undo_reverse_pass_order_witness:
  "log_chains world_undo_rev \<and> undo_ready [7, 8] world_undo_rev
   \<and> distinct (map xct_tid (xct_tab world_undo_rev))
   \<and> look_up 7 world_undo_rev = Some xct7_two \<and> look_up 8 world_undo_rev = Some xct8
   \<and> (\<exists>w1 n. rollback 7 300 world_undo_rev = Some (Inr w1)
          \<and> look_up 7 w1 = Some (xct7_two\<lparr>xct_undo_nxt := n\<rparr>)
          \<and> (n < 300 \<or> n = lsn_null) \<and> n < 400)
   \<and> (\<exists>w'. undo_reverse_pass cfg_serial [7, 8] world_undo_rev = Some (Inr w')
          \<and> EvAbort 7 \<in> set (trace w') \<and> EvAbort 8 \<in> set (trace w')
          \<and> look_up 7 w' = None \<and> look_up 8 w' = None)
   \<and> undo_reverse_pass cfg_serial [7, 8] world_undo_rev
        = Some (Inr (world_undo_rev
            \<lparr>xct_tab := [],
             trace := [EvLogComment, EvRollback 7 300, EvUndo 7 400, EvRollback 8 200,
                       EvUndo 8 300, EvRollback 7 0, EvUndo 7 200, EvAbort 7, EvAbort 8,
                       EvFlushAll]\<rparr>))"
proof -
  have h1: "log_chains world_undo_rev"
    by (simp add: log_chains_def owned_def log_fetch_def undo_rev_sample_defs lsn_null_def)
  have h2: "undo_ready [7, 8] world_undo_rev"
    by (simp add: undo_ready_def owned_def log_fetch_def look_up_def undo_nxt_of_def
          undo_rev_sample_defs lsn_null_def)
  have h3: "[7, 8] = (if \<not> use_serial_recovery cfg_serial \<and> use_undo_reverse_recovery cfg_serial
                        then heapify world_undo_rev
                               ([7, 8] @ map xct_tid (filter doomed_active (xct_tab world_undo_rev)))
                        else [7, 8])"
    by (simp add: cfg_serial_def)
  have h4: "distinct (map xct_tid (xct_tab world_undo_rev))"
    by (simp add: undo_rev_sample_defs)
  have h5: "look_up 7 world_undo_rev = Some xct7_two" "look_up 8 world_undo_rev = Some xct8"
    by (simp_all add: look_up_def undo_rev_sample_defs)
  have h6: "xct_undo_nxt xct7_two \<noteq> lsn_null"
    "\<not> (xct_is_sys xct7_two \<and> xct_is_single_log_sys xct7_two)"
    "xct_undo_nxt xct8 = 300" "xct_undo_nxt xct7_two = 400"
    by (simp_all add: xct7_two_def xct8_def lsn_null_def)
  note T = undo_reverse_pass_order[OF h1 h2 h3 h4]
  from T have "\<forall>t1 t2 rest x1 x2.
        [7, 8] = t1 # t2 # rest \<and> look_up t1 world_undo_rev = Some x1
        \<and> look_up t2 world_undo_rev = Some x2
        \<and> xct_undo_nxt x1 \<noteq> lsn_null \<and> \<not> (xct_is_sys x1 \<and> xct_is_single_log_sys x1) \<longrightarrow>
          (\<exists>w1 n. rollback t1 (xct_undo_nxt x2) world_undo_rev = Some (Inr w1)
             \<and> look_up t1 w1 = Some (x1\<lparr>xct_undo_nxt := n\<rparr>)
             \<and> (n < xct_undo_nxt x2 \<or> n = lsn_null) \<and> n < xct_undo_nxt x1)"
    by blast
  from this[rule_format, of 7 8 "[]" xct7_two xct8] h5 h6
  have a: "\<exists>w1 n. rollback 7 300 world_undo_rev = Some (Inr w1)
          \<and> look_up 7 w1 = Some (xct7_two\<lparr>xct_undo_nxt := n\<rparr>)
          \<and> (n < 300 \<or> n = lsn_null) \<and> n < 400"
    by simp
  from T have b: "\<exists>w'. undo_reverse_pass cfg_serial [7, 8] world_undo_rev = Some (Inr w')
          \<and> EvAbort 7 \<in> set (trace w') \<and> EvAbort 8 \<in> set (trace w')
          \<and> look_up 7 w' = None \<and> look_up 8 w' = None"
    by auto
  have c: "undo_reverse_pass cfg_serial [7, 8] world_undo_rev
        = Some (Inr (world_undo_rev
            \<lparr>xct_tab := [],
             trace := [EvLogComment, EvRollback 7 300, EvUndo 7 400, EvRollback 8 200,
                       EvUndo 8 300, EvRollback 7 0, EvUndo 7 200, EvAbort 7, EvAbort 8,
                       EvFlushAll]\<rparr>))"
    by (simp add: undo_eval_defs look_up_def upd_xct_def emit_def lsn_null_def undo_nxt_of_def
          undo_rev_sample_defs)
  from h1 h2 h4 h5 a b c show ?thesis by blast
qed

end
